theory Spec2Isabelle
  imports Main "HOL-Library.Sublist" "HOL-Library.Monad_Syntax" "HOL-Library.Multiset"
begin

section \<open>JavaScript strings\<close>

text \<open>
  A JavaScript string is a sequence of UTF-16 code units; a code unit is modelled as a
  natural number. \<open>js\<close> turns an ASCII literal into its code units, so that the source's
  ASCII literals stay readable; the source's Chinese literals are given by their code
  units.
\<close>

type_synonym jsstring = "nat list"

definition js :: "string \<Rightarrow> jsstring" where
  "js s = map of_char s"

text \<open>
  The code units that \<open>String.prototype.trim\<close> strips and that \<open>\s\<close> matches in a
  regular expression: ECMAScript's WhiteSpace and LineTerminator.
\<close>

definition is_ws :: "nat \<Rightarrow> bool" where
  "is_ws c \<longleftrightarrow>
     c = 0x09 \<or> c = 0x0A \<or> c = 0x0B \<or> c = 0x0C \<or> c = 0x0D \<or> c = 0x20 \<or> c = 0xA0 \<or>
     c = 0x1680 \<or> (0x2000 \<le> c \<and> c \<le> 0x200A) \<or> c = 0x2028 \<or> c = 0x2029 \<or>
     c = 0x202F \<or> c = 0x205F \<or> c = 0x3000 \<or> c = 0xFEFF"

definition trimStart :: "jsstring \<Rightarrow> jsstring" where
  "trimStart s = dropWhile is_ws s"

definition trimEnd :: "jsstring \<Rightarrow> jsstring" where
  "trimEnd s = rev (dropWhile is_ws (rev s))"

definition trim :: "jsstring \<Rightarrow> jsstring" where
  "trim s = trimEnd (trimStart s)"

text \<open>
  \<open>String.prototype.toLowerCase\<close> on the ASCII letters. The Unicode case mapping of
  the other code points is not reproduced (they are left as they are). The lowered
  strings are only compared with keys made of ASCII letters and underscores, and a code
  point outside ASCII lowers to text that is not ASCII, with one exception: U+212A
  (Kelvin sign) lowers to \<open>k\<close>. No key looked up below contains a \<open>k\<close>, so whether
  a lowered string equals one of those keys is decided as in JavaScript.
\<close>

definition lower_unit :: "nat \<Rightarrow> nat" where
  "lower_unit c = (if 0x41 \<le> c \<and> c \<le> 0x5A then c + 0x20 else c)"

definition toLowerCase :: "jsstring \<Rightarrow> jsstring" where
  "toLowerCase s = map lower_unit s"

text \<open>The decimal text of a number, as a template literal prints an integer.\<close>

fun nat_text :: "nat \<Rightarrow> jsstring" where
  "nat_text n = (if n < 10 then [0x30 + n] else nat_text (n div 10) @ [0x30 + n mod 10])"

declare nat_text.simps [simp del]

definition int_text :: "int \<Rightarrow> jsstring" where
  "int_text i = (if i < 0 then js ''-'' @ nat_text (nat (- i)) else nat_text (nat i))"

section \<open>The executor: \<open>BaseCLIAgent.execute\<close>\<close>

text \<open>
  \<open>AgentExecuteResult\<close> of types.ts, its fields with the prefix \<open>res_\<close>. The
  optional \<open>error\<close> is \<open>None\<close> when undefined.
\<close>

record AgentExecuteResult =
  res_success :: bool
  res_output :: jsstring
  res_error :: "jsstring option"
  res_duration :: int

text \<open>
  The promise executor of \<open>execute\<close> calls \<open>getCommand\<close>, \<open>getArgs\<close> and \<open>spawn\<close>
  outside any \<open>try\<close>. \<open>spawn\<close> throws, before any callback is registered, when the
  command or an argument holds the code unit 0 (Node refuses strings with null bytes),
  and when the operating system refuses to create the process with an error that Node
  does not report through the \<open>error\<close> event (an argument list that is too long, for
  one). What the operating system does with a command line is the parameter
  \<open>refused\<close>.
\<close>

definition has_nul :: "jsstring \<Rightarrow> bool" where
  "has_nul s \<longleftrightarrow> 0 \<in> set s"

definition spawn_throws :: "(jsstring \<Rightarrow> jsstring list \<Rightarrow> bool) \<Rightarrow> jsstring \<Rightarrow> jsstring list \<Rightarrow> bool" where
  "spawn_throws refused command args \<longleftrightarrow>
     list_ex has_nul (command # args) \<or> refused command args"

text \<open>
  When \<open>spawn\<close> returns, \<open>execute\<close> sets the timer and registers four callbacks on the
  child; what happens next is the sequence in which the event loop runs the five
  callbacks. An event carries the reading of \<open>Date.now()\<close> at the moment its callback
  runs. The exit code of \<open>close\<close> is \<open>null\<close> (\<open>None\<close>) when the process was ended
  by a signal.
\<close>

datatype process_event =
    StdoutData jsstring
  | StderrData jsstring
  | Close "int option"
  | ProcError jsstring
  | TimerFired

datatype timer_state = Armed | Fired | Cleared

text \<open>Which of the three callbacks called \<open>resolve\<close>.\<close>

datatype resolution_path = ByTimeout | ByClose | ByError

text \<open>
  The local variables of the promise executor (\<open>output\<close>, \<open>errorOutput\<close>,
  \<open>resolved\<close>), the timer, and what the callbacks did to the outside: the chunks handed
  to \<open>onChunk\<close>, the signals sent to the child, and every call of \<open>resolve\<close> in order.
\<close>

record execute_state =
  x_output :: jsstring
  x_errorOutput :: jsstring
  x_resolved :: bool
  x_timer :: timer_state
  x_chunks :: "jsstring list"
  x_sigterms :: nat
  x_resolutions :: "(resolution_path \<times> AgentExecuteResult) list"

definition execute_init :: execute_state where
  "execute_init =
     \<lparr>x_output = [], x_errorOutput = [], x_resolved = False, x_timer = Armed,
      x_chunks = [], x_sigterms = 0, x_resolutions = []\<rparr>"

text \<open>The sentinel \<open>error\<close> of a timeout: U+6267 U+884C U+8D85 U+65F6.\<close>

definition timeout_error :: jsstring where
  "timeout_error = [0x6267, 0x884C, 0x8D85, 0x65F6]"

text \<open>The exit-code message: U+9000 U+51FA U+7801, a colon, a space, then the code.\<close>

definition exit_code_error :: "int option \<Rightarrow> jsstring" where
  "exit_code_error code =
     [0x9000, 0x51FA, 0x7801] @ js '': '' @
     (case code of None \<Rightarrow> js ''null'' | Some c \<Rightarrow> int_text c)"

text \<open>
  One callback. \<open>startTime\<close> is the clock at the call of \<open>execute\<close>, \<open>now\<close> the
  clock when the callback runs. A timer that was cleared, or that has fired already,
  does not run its callback.
\<close>

fun on_event :: "int \<Rightarrow> int \<times> process_event \<Rightarrow> execute_state \<Rightarrow> execute_state" where
  "on_event startTime (now, TimerFired) s =
     (if x_timer s \<noteq> Armed then s
      else if \<not> x_resolved s then
        s\<lparr>x_timer := Fired, x_resolved := True, x_sigterms := x_sigterms s + 1,
          x_resolutions := x_resolutions s @
            [(ByTimeout, \<lparr>res_success = False, res_output = x_output s,
                           res_error = Some timeout_error, res_duration = now - startTime\<rparr>)]\<rparr>
      else s\<lparr>x_timer := Fired\<rparr>)"
| "on_event startTime (now, StdoutData chunk) s =
     s\<lparr>x_output := x_output s @ chunk, x_chunks := x_chunks s @ [chunk]\<rparr>"
| "on_event startTime (now, StderrData chunk) s =
     s\<lparr>x_errorOutput := x_errorOutput s @ chunk\<rparr>"
| "on_event startTime (now, Close code) s =
     (if \<not> x_resolved s then
        s\<lparr>x_resolved := True, x_timer := (if x_timer s = Armed then Cleared else x_timer s),
          x_resolutions := x_resolutions s @
            [(ByClose, \<lparr>res_success = (code = Some 0), res_output = trim (x_output s),
                         res_error = (if code \<noteq> Some 0
                                  then Some (if x_errorOutput s \<noteq> [] then x_errorOutput s
                                             else exit_code_error code)
                                  else None),
                         res_duration = now - startTime\<rparr>)]\<rparr>
      else s)"
| "on_event startTime (now, ProcError message) s =
     (if \<not> x_resolved s then
        s\<lparr>x_resolved := True, x_timer := (if x_timer s = Armed then Cleared else x_timer s),
          x_resolutions := x_resolutions s @
            [(ByError, \<lparr>res_success = False, res_output = [],
                         res_error = Some message, res_duration = now - startTime\<rparr>)]\<rparr>
      else s)"

text \<open>
  After \<open>spawn\<close> has returned, the callbacks run one after the other, in the order of
  the trace.
\<close>

definition execute_run :: "int \<Rightarrow> (int \<times> process_event) list \<Rightarrow> execute_state" where
  "execute_run startTime evs = foldl (\<lambda>s e. on_event startTime e s) execute_init evs"

text \<open>The same from any state of the executor.\<close>

definition run_from :: "int \<Rightarrow> execute_state \<Rightarrow> (int \<times> process_event) list \<Rightarrow> execute_state" where
  "run_from startTime s evs = foldl (\<lambda>s e. on_event startTime e s) s evs"

text \<open>
  The state of the promise that \<open>execute\<close> returned. An exception thrown in the promise
  executor rejects the promise, and no callback exists then; otherwise the promise takes
  the value of the first call of \<open>resolve\<close>.
\<close>

datatype promise_state = Pending | Fulfilled AgentExecuteResult | Rejected

definition execute_promise :: "(jsstring \<Rightarrow> jsstring list \<Rightarrow> bool) \<Rightarrow> jsstring \<Rightarrow> jsstring list \<Rightarrow>
    int \<Rightarrow> (int \<times> process_event) list \<Rightarrow> promise_state" where
  "execute_promise refused command args startTime evs =
     (if spawn_throws refused command args then Rejected
      else (case x_resolutions (execute_run startTime evs) of
              [] \<Rightarrow> Pending
            | (p, r) # rest \<Rightarrow> Fulfilled r))"

text \<open>What the trace wrote to standard output and to standard error.\<close>

fun stdout_of :: "(int \<times> process_event) list \<Rightarrow> jsstring" where
  "stdout_of [] = []"
| "stdout_of ((now, StdoutData chunk) # evs) = chunk @ stdout_of evs"
| "stdout_of (e # evs) = stdout_of evs"

fun stderr_of :: "(int \<times> process_event) list \<Rightarrow> jsstring" where
  "stderr_of [] = []"
| "stderr_of ((now, StderrData chunk) # evs) = chunk @ stderr_of evs"
| "stderr_of (e # evs) = stderr_of evs"

text \<open>The events whose callback may call \<open>resolve\<close>.\<close>

fun settles :: "int \<times> process_event \<Rightarrow> bool" where
  "settles (now, StdoutData chunk) = False"
| "settles (now, StderrData chunk) = False"
| "settles (now, e) = True"

text \<open>
  The four outcomes, from the event that settles the promise and from what the child
  had written until then: exit with code zero, any other exit, launch error, timeout.
\<close>

fun outcome :: "int \<Rightarrow> jsstring \<Rightarrow> jsstring \<Rightarrow> int \<times> process_event \<Rightarrow>
    (resolution_path \<times> AgentExecuteResult) option" where
  "outcome startTime out err (now, Close code) =
     (if code = Some 0
      then Some (ByClose, \<lparr>res_success = True, res_output = trim out, res_error = None,
                            res_duration = now - startTime\<rparr>)
      else Some (ByClose, \<lparr>res_success = False, res_output = trim out,
                            res_error = Some (if err \<noteq> [] then err else exit_code_error code),
                            res_duration = now - startTime\<rparr>))"
| "outcome startTime out err (now, ProcError message) =
     Some (ByError, \<lparr>res_success = False, res_output = [], res_error = Some message,
                      res_duration = now - startTime\<rparr>)"
| "outcome startTime out err (now, TimerFired) =
     Some (ByTimeout, \<lparr>res_success = False, res_output = out, res_error = Some timeout_error,
                        res_duration = now - startTime\<rparr>)"
| "outcome startTime out err (now, StdoutData chunk) = None"
| "outcome startTime out err (now, StderrData chunk) = None"

section \<open>\<open>JSON.parse\<close>\<close>

text \<open>
  The values that \<open>JSON.parse\<close> returns. A number is kept as mantissa and decimal
  exponent (\<open>JNum m e\<close> is \<open>m * 10^e\<close>); an object keeps its members in the order of
  the text.
\<close>

datatype json =
    JNull
  | JBool bool
  | JNum int int
  | JStr jsstring
  | JArr "json list"
  | JObj "(jsstring \<times> json) list"

datatype token =
    TLBrace | TRBrace | TLBracket | TRBracket | TColon | TComma
  | TString jsstring | TNumber int int | TTrue | TFalse | TNull

text \<open>JSON's own white space: space, tab, line feed, carriage return.\<close>

definition is_json_ws :: "nat \<Rightarrow> bool" where
  "is_json_ws c \<longleftrightarrow> c = 0x20 \<or> c = 0x09 \<or> c = 0x0A \<or> c = 0x0D"

definition is_digit :: "nat \<Rightarrow> bool" where
  "is_digit c \<longleftrightarrow> 0x30 \<le> c \<and> c \<le> 0x39"

definition hex_value :: "nat \<Rightarrow> nat option" where
  "hex_value c =
     (if 0x30 \<le> c \<and> c \<le> 0x39 then Some (c - 0x30)
      else if 0x41 \<le> c \<and> c \<le> 0x46 then Some (c - 0x41 + 10)
      else if 0x61 \<le> c \<and> c \<le> 0x66 then Some (c - 0x61 + 10)
      else None)"

text \<open>The single-character escapes of a JSON string.\<close>

definition escape_value :: "nat \<Rightarrow> nat option" where
  "escape_value c =
     (if c = 0x22 then Some 0x22
      else if c = 0x5C then Some 0x5C
      else if c = 0x2F then Some 0x2F
      else if c = 0x62 then Some 0x08
      else if c = 0x66 then Some 0x0C
      else if c = 0x6E then Some 0x0A
      else if c = 0x72 then Some 0x0D
      else if c = 0x74 then Some 0x09
      else None)"

text \<open>
  The rest of a string after its opening quote: the decoded string and what follows
  the closing quote. \<open>acc\<close> holds the code units read so far, last first.
\<close>

fun lex_string :: "jsstring \<Rightarrow> jsstring \<Rightarrow> (jsstring \<times> jsstring) option" where
  "lex_string acc [] = None"
| "lex_string acc (c # cs) =
     (if c = 0x22 then Some (rev acc, cs)
      else if c = 0x5C then
        (case cs of
           [] \<Rightarrow> None
         | e # cs1 \<Rightarrow>
             if e = 0x75 then
               (case cs1 of
                  h1 # h2 # h3 # h4 # cs2 \<Rightarrow>
                    (case (hex_value h1, hex_value h2, hex_value h3, hex_value h4) of
                       (Some a, Some b, Some c, Some d) \<Rightarrow>
                         lex_string ((((a * 16 + b) * 16 + c) * 16 + d) # acc) cs2
                     | _ \<Rightarrow> None)
                | _ \<Rightarrow> None)
             else
               (case escape_value e of
                  None \<Rightarrow> None
                | Some u \<Rightarrow> lex_string (u # acc) cs1))
      else if c < 0x20 then None
      else lex_string (c # acc) cs)"

definition digits_value :: "jsstring \<Rightarrow> int" where
  "digits_value ds = foldl (\<lambda>a d. 10 * a + (int d - 0x30)) 0 ds"

text \<open>
  A number: optional minus, integer part without a leading zero, optional fraction,
  optional exponent. Each part returns what it read and the rest of the text.
\<close>

definition lex_sign :: "jsstring \<Rightarrow> bool \<times> jsstring" where
  "lex_sign s =
     (case s of
        [] \<Rightarrow> (False, s)
      | c # cs \<Rightarrow> if c = 0x2D then (True, cs) else (False, s))"

definition lex_int :: "jsstring \<Rightarrow> (jsstring \<times> jsstring) option" where
  "lex_int s =
     (case takeWhile is_digit s of
        [] \<Rightarrow> None
      | d # ds \<Rightarrow>
          if d = 0x30 \<and> ds \<noteq> [] then None
          else Some (d # ds, dropWhile is_digit s))"

definition lex_frac :: "jsstring \<Rightarrow> (jsstring \<times> jsstring) option" where
  "lex_frac s =
     (case s of
        [] \<Rightarrow> Some ([], s)
      | c # cs \<Rightarrow>
          if c = 0x2E then
            (case takeWhile is_digit cs of
               [] \<Rightarrow> None
             | d # ds \<Rightarrow> Some (d # ds, dropWhile is_digit cs))
          else Some ([], s))"

definition lex_exp_sign :: "jsstring \<Rightarrow> bool \<times> jsstring" where
  "lex_exp_sign s =
     (case s of
        [] \<Rightarrow> (False, s)
      | c # cs \<Rightarrow>
          if c = 0x2D then (True, cs)
          else if c = 0x2B then (False, cs)
          else (False, s))"

definition lex_exp :: "jsstring \<Rightarrow> (int \<times> jsstring) option" where
  "lex_exp s =
     (case s of
        [] \<Rightarrow> Some (0, s)
      | c # cs \<Rightarrow>
          if c = 0x65 \<or> c = 0x45 then
            (case lex_exp_sign cs of
               (eneg, cs1) \<Rightarrow>
                 (case takeWhile is_digit cs1 of
                    [] \<Rightarrow> None
                  | d # ds \<Rightarrow>
                      Some (if eneg then - digits_value (d # ds) else digits_value (d # ds),
                            dropWhile is_digit cs1)))
          else Some (0, s))"

definition lex_number :: "jsstring \<Rightarrow> ((int \<times> int) \<times> jsstring) option" where
  "lex_number s =
     (case lex_sign s of
        (neg, s1) \<Rightarrow>
          (case lex_int s1 of
             None \<Rightarrow> None
           | Some (ip, s2) \<Rightarrow>
               (case lex_frac s2 of
                  None \<Rightarrow> None
                | Some (fp, s3) \<Rightarrow>
                    (case lex_exp s3 of
                       None \<Rightarrow> None
                     | Some (ex, s4) \<Rightarrow>
                         Some ((if neg then - digits_value (ip @ fp) else digits_value (ip @ fp),
                                ex - int (length fp)), s4)))))"

text \<open>One token from the head of the text, and the rest.\<close>

definition lex_token :: "jsstring \<Rightarrow> (token \<times> jsstring) option" where
  "lex_token s =
     (case s of
        [] \<Rightarrow> None
      | c # cs \<Rightarrow>
          if c = 0x7B then Some (TLBrace, cs)
          else if c = 0x7D then Some (TRBrace, cs)
          else if c = 0x5B then Some (TLBracket, cs)
          else if c = 0x5D then Some (TRBracket, cs)
          else if c = 0x3A then Some (TColon, cs)
          else if c = 0x2C then Some (TComma, cs)
          else if c = 0x22 then
            (case lex_string [] cs of
               None \<Rightarrow> None
             | Some (str, rest) \<Rightarrow> Some (TString str, rest))
          else if c = 0x2D \<or> is_digit c then
            (case lex_number s of
               None \<Rightarrow> None
             | Some ((m, e), rest) \<Rightarrow> Some (TNumber m e, rest))
          else if take 4 s = js ''true'' then Some (TTrue, drop 4 s)
          else if take 5 s = js ''false'' then Some (TFalse, drop 5 s)
          else if take 4 s = js ''null'' then Some (TNull, drop 4 s)
          else None)"

text \<open>Every token takes at least one code unit, so the tokenizer terminates.\<close>

lemma lex_string_shorter: "lex_string acc s = Some (v, r) \<Longrightarrow> length r < length s"
proof (induction acc s rule: lex_string.induct)
  case (1 acc) then show ?case by simp
next
  case (2 acc c cs)
  then show ?case
    by (auto split: if_splits list.splits option.splits simp: less_Suc_eq)
qed

lemma lex_sign_le: "lex_sign s = (b, r) \<Longrightarrow> length r \<le> length s"
  by (auto simp: lex_sign_def split: list.splits if_splits)

lemma lex_int_shorter: "lex_int s = Some (ds, r) \<Longrightarrow> length r < length s"
proof -
  assume a: "lex_int s = Some (ds, r)"
  then have "takeWhile is_digit s \<noteq> []" and r: "r = dropWhile is_digit s"
    by (auto simp: lex_int_def split: list.splits if_splits)
  moreover have "length s = length (takeWhile is_digit s) + length (dropWhile is_digit s)"
    by (metis length_append takeWhile_dropWhile_id)
  ultimately show ?thesis by (cases "takeWhile is_digit s") auto
qed

lemma lex_frac_le: "lex_frac s = Some (ds, r) \<Longrightarrow> length r \<le> length s"
  using length_dropWhile_le [of is_digit "tl s"]
  by (auto simp: lex_frac_def split: list.splits if_splits)

lemma lex_exp_sign_le: "lex_exp_sign s = (b, r) \<Longrightarrow> length r \<le> length s"
  by (auto simp: lex_exp_sign_def split: list.splits if_splits)

lemma lex_exp_le: "lex_exp s = Some (ex, r) \<Longrightarrow> length r \<le> length s"
proof (cases s)
  case Nil then show "lex_exp s = Some (ex, r) \<Longrightarrow> ?thesis" by (simp add: lex_exp_def)
next
  case (Cons c cs)
  assume a: "lex_exp s = Some (ex, r)"
  show ?thesis
  proof (cases "c = 0x65 \<or> c = 0x45")
    case False with a Cons show ?thesis by (auto simp: lex_exp_def)
  next
    case True
    obtain b cs1 where s: "lex_exp_sign cs = (b, cs1)" by (cases "lex_exp_sign cs")
    with a Cons True have "r = dropWhile is_digit cs1"
      by (auto simp: lex_exp_def split: list.splits)
    with lex_exp_sign_le [OF s] length_dropWhile_le [of is_digit cs1] Cons show ?thesis by simp
  qed
qed

lemma lex_number_shorter:
  assumes "lex_number s = Some (v, r)" shows "length r < length s"
proof -
  obtain neg s1 where 1: "lex_sign s = (neg, s1)" by (cases "lex_sign s")
  from assms 1 obtain ip s2 where 2: "lex_int s1 = Some (ip, s2)"
    by (auto simp: lex_number_def split: option.splits)
  from assms 1 2 obtain fp s3 where 3: "lex_frac s2 = Some (fp, s3)"
    by (auto simp: lex_number_def split: option.splits)
  from assms 1 2 3 obtain ex where 4: "lex_exp s3 = Some (ex, r)"
    by (auto simp: lex_number_def split: option.splits)
  from lex_sign_le [OF 1] lex_int_shorter [OF 2] lex_frac_le [OF 3] lex_exp_le [OF 4]
  show ?thesis by linarith
qed

lemma lex_token_shorter: "lex_token s = Some (t, r) \<Longrightarrow> length r < length s"
  unfolding lex_token_def
  by (auto split: list.splits if_splits option.splits prod.splits
      dest: lex_string_shorter lex_number_shorter simp: less_Suc_eq)

function tokenize :: "jsstring \<Rightarrow> token list option" where
  "tokenize [] = Some []"
| "tokenize (c # cs) =
     (if is_json_ws c then tokenize cs
      else (case lex_token (c # cs) of
              None \<Rightarrow> None
            | Some (t, rest) \<Rightarrow>
                (case tokenize rest of None \<Rightarrow> None | Some ts \<Rightarrow> Some (t # ts))))"
  by pat_completeness auto
termination
proof (relation "measure length")
  show "wf (measure length)" by simp
next
  fix c :: nat and cs :: jsstring
  show "(cs, c # cs) \<in> measure length" by simp
next
  fix c :: nat and cs x2 t rest
  assume "lex_token (c # cs) = Some x2" "(t, rest) = x2"
  then show "(rest, c # cs) \<in> measure length"
    using lex_token_shorter [of "c # cs" t rest] by simp
qed

text \<open>
  The parser proper is a pushdown automaton over the tokens. A frame of the stack is an
  array under construction (its elements so far, last first), an object waiting for a
  key (its members so far, last first), or an object waiting for the value of a key.
\<close>

datatype frame =
    FArr "json list"
  | FObj "(jsstring \<times> json) list"
  | FMember "(jsstring \<times> json) list" jsstring

datatype pstate = Value | ValueOrClose | KeyOrClose | Key | Colon | Done json

definition start_value :: "token \<Rightarrow> frame list \<Rightarrow> (pstate \<times> frame list) option" where
  "start_value t stk =
     (case t of
        TNull \<Rightarrow> Some (Done JNull, stk)
      | TTrue \<Rightarrow> Some (Done (JBool True), stk)
      | TFalse \<Rightarrow> Some (Done (JBool False), stk)
      | TNumber m e \<Rightarrow> Some (Done (JNum m e), stk)
      | TString str \<Rightarrow> Some (Done (JStr str), stk)
      | TLBracket \<Rightarrow> Some (ValueOrClose, FArr [] # stk)
      | TLBrace \<Rightarrow> Some (KeyOrClose, FObj [] # stk)
      | _ \<Rightarrow> None)"

definition start_member :: "token \<Rightarrow> frame list \<Rightarrow> (pstate \<times> frame list) option" where
  "start_member t stk =
     (case (t, stk) of
        (TString k, FObj ms # rest) \<Rightarrow> Some (Colon, FMember ms k # rest)
      | _ \<Rightarrow> None)"

definition after_value :: "json \<Rightarrow> token \<Rightarrow> frame list \<Rightarrow> (pstate \<times> frame list) option" where
  "after_value v t stk =
     (case stk of
        FArr vs # rest \<Rightarrow>
          (case t of
             TComma \<Rightarrow> Some (Value, FArr (v # vs) # rest)
           | TRBracket \<Rightarrow> Some (Done (JArr (rev (v # vs))), rest)
           | _ \<Rightarrow> None)
      | FMember ms k # rest \<Rightarrow>
          (case t of
             TComma \<Rightarrow> Some (Key, FObj ((k, v) # ms) # rest)
           | TRBrace \<Rightarrow> Some (Done (JObj (rev ((k, v) # ms))), rest)
           | _ \<Rightarrow> None)
      | _ \<Rightarrow> None)"

definition parse_step :: "pstate \<Rightarrow> token \<Rightarrow> frame list \<Rightarrow> (pstate \<times> frame list) option" where
  "parse_step st t stk =
     (case st of
        Value \<Rightarrow> start_value t stk
      | ValueOrClose \<Rightarrow>
          (case (t, stk) of
             (TRBracket, FArr vs # rest) \<Rightarrow> Some (Done (JArr []), rest)
           | _ \<Rightarrow> start_value t stk)
      | KeyOrClose \<Rightarrow>
          (case (t, stk) of
             (TRBrace, FObj ms # rest) \<Rightarrow> Some (Done (JObj []), rest)
           | _ \<Rightarrow> start_member t stk)
      | Key \<Rightarrow> start_member t stk
      | Colon \<Rightarrow> (case t of TColon \<Rightarrow> Some (Value, stk) | _ \<Rightarrow> None)
      | Done v \<Rightarrow> after_value v t stk)"

fun parse_tokens :: "pstate \<Rightarrow> frame list \<Rightarrow> token list \<Rightarrow> json option" where
  "parse_tokens st stk [] =
     (case (st, stk) of (Done v, []) \<Rightarrow> Some v | _ \<Rightarrow> None)"
| "parse_tokens st stk (t # ts) =
     (case parse_step st t stk of
        None \<Rightarrow> None
      | Some (st1, stk1) \<Rightarrow> parse_tokens st1 stk1 ts)"

text \<open>\<open>JSON.parse\<close>: the value, or \<open>None\<close> where it throws a SyntaxError.\<close>

definition JSON_parse :: "jsstring \<Rightarrow> json option" where
  "JSON_parse s =
     (case tokenize s of
        None \<Rightarrow> None
      | Some ts \<Rightarrow> parse_tokens Value [] ts)"

section \<open>JavaScript values\<close>

text \<open>
  What an expression of the program can evaluate to, as far as the parsing layer goes:
  \<open>undefined\<close>, a value decoded by \<open>JSON.parse\<close> (strings of the program
  included), or a member that a plain object inherits from \<open>Object.prototype\<close>, named
  by its key (a function, or the prototype object itself for \<open>__proto__\<close>).
\<close>

datatype jsval = Undefined | Json json | Inherited jsstring

definition str :: "jsstring \<Rightarrow> jsval" where
  "str s = Json (JStr s)"

text \<open>
  ToBoolean. A number is falsy when it is zero as a double: \<open>m * 10^e\<close> rounds to
  zero exactly when its magnitude is at most \<open>2^-1075\<close>.
\<close>

definition number_truthy :: "int \<Rightarrow> int \<Rightarrow> bool" where
  "number_truthy m e \<longleftrightarrow>
     (if 0 \<le> e then m \<noteq> 0 else 10 ^ nat (- e) < \<bar>m\<bar> * 2 ^ 1075)"

fun truthy :: "jsval \<Rightarrow> bool" where
  "truthy Undefined = False"
| "truthy (Json JNull) = False"
| "truthy (Json (JBool b)) = b"
| "truthy (Json (JNum m e)) = number_truthy m e"
| "truthy (Json (JStr s)) = (s \<noteq> [])"
| "truthy (Json (JArr vs)) = True"
| "truthy (Json (JObj ms)) = True"
| "truthy (Inherited k) = True"

text \<open>\<open>a || b\<close>\<close>

definition or_else :: "jsval \<Rightarrow> jsval \<Rightarrow> jsval" where
  "or_else a b = (if truthy a then a else b)"

text \<open>The own property names of \<open>Object.prototype\<close>.\<close>

definition object_prototype_keys :: "jsstring list" where
  "object_prototype_keys =
     [js ''constructor'', js ''__defineGetter__'', js ''__defineSetter__'',
      js ''hasOwnProperty'', js ''__lookupGetter__'', js ''__lookupSetter__'',
      js ''isPrototypeOf'', js ''propertyIsEnumerable'', js ''toString'', js ''valueOf'',
      js ''__proto__'', js ''toLocaleString'']"

text \<open>
  \<open>o[k]\<close> on a plain object with the given own properties (for a repeated key the
  last one counts): the own property, else what \<open>Object.prototype\<close> has under that
  key, else \<open>undefined\<close>.
\<close>

definition object_get :: "(jsstring \<times> jsval) list \<Rightarrow> jsstring \<Rightarrow> jsval" where
  "object_get ms k =
     (case map_of (rev ms) k of
        Some v \<Rightarrow> v
      | None \<Rightarrow> if k \<in> set object_prototype_keys then Inherited k else Undefined)"

text \<open>
  \<open>v.k\<close> on a decoded value; \<open>None\<close> is the TypeError of reading a property of
  \<open>null\<close>. Arrays, strings, numbers and booleans are given the members of
  \<open>Object.prototype\<close> only: their indices, \<open>length\<close> and the methods of their own
  prototypes are not modelled, and no property name that the program reads is one of
  them.
\<close>

fun get_prop :: "json \<Rightarrow> jsstring \<Rightarrow> jsval option" where
  "get_prop JNull k = None"
| "get_prop (JObj ms) k = Some (object_get (map (\<lambda>(n, v). (n, Json v)) ms) k)"
| "get_prop v k = Some (if k \<in> set object_prototype_keys then Inherited k else Undefined)"

text \<open>
  The key that \<open>m[x?.toLowerCase()]\<close> reads: \<open>undefined\<close> (as a property key, the
  string \<open>undefined\<close>) when \<open>x\<close> is \<open>undefined\<close> or \<open>null\<close>, the lowered
  string when \<open>x\<close> is a string; \<open>None\<close> is the TypeError of calling a
  \<open>toLowerCase\<close> that is not a function, on any other value.
\<close>

fun lowered_key :: "jsval \<Rightarrow> jsstring option" where
  "lowered_key Undefined = Some (js ''undefined'')"
| "lowered_key (Json JNull) = Some (js ''undefined'')"
| "lowered_key (Json (JStr s)) = Some (toLowerCase s)"
| "lowered_key v = None"

section \<open>The fenced block: \<open>output.match(/```json\s*([\s\S]*?)\s*```/)\<close>\<close>

definition fence_open :: jsstring where
  "fence_open = js ''```json''"

definition fence_close :: jsstring where
  "fence_close = js ''```''"

text \<open>\<open>\s*```\<close> matches at the head of the text.\<close>

definition closes_here :: "jsstring \<Rightarrow> bool" where
  "closes_here r = prefix fence_close (dropWhile is_ws r)"

text \<open>
  The lazy group \<open>([\s\S]*?)\<close> followed by \<open>\s*```\<close>: the shortest prefix after
  which the closing part matches. \<open>acc\<close> is the group so far, last code unit first.
\<close>

fun lazy_group :: "jsstring \<Rightarrow> jsstring \<Rightarrow> jsstring option" where
  "lazy_group acc [] = (if closes_here [] then Some (rev acc) else None)"
| "lazy_group acc (c # cs) =
     (if closes_here (c # cs) then Some (rev acc) else lazy_group (c # acc) cs)"

text \<open>
  The greedy \<open>\s*\<close> after the opening fence, then the group: white space is taken
  as long as possible, and given back one code unit at a time if the rest fails.
\<close>

fun after_open :: "jsstring \<Rightarrow> jsstring option" where
  "after_open [] = lazy_group [] []"
| "after_open (c # cs) =
     (if is_ws c then
        (case after_open cs of
           Some g \<Rightarrow> Some g
         | None \<Rightarrow> lazy_group [] (c # cs))
      else lazy_group [] (c # cs))"

definition match_here :: "jsstring \<Rightarrow> jsstring option" where
  "match_here s = (if prefix fence_open s then after_open (drop (length fence_open) s) else None)"

text \<open>
  The first group of the leftmost match, \<open>None\<close> when the expression does not match.
\<close>

fun fence_match :: "jsstring \<Rightarrow> jsstring option" where
  "fence_match [] = match_here []"
| "fence_match (c # cs) =
     (case match_here (c # cs) of
        Some g \<Rightarrow> Some g
      | None \<Rightarrow> fence_match cs)"

definition extract_json :: "jsstring \<Rightarrow> jsstring" where
  "extract_json output = (case fence_match output of Some g \<Rightarrow> g | None \<Rightarrow> output)"

section \<open>The enumerations of types.ts\<close>

datatype DebateRole = MODERATOR | CHALLENGER | DEFENDER

datatype CLIType = CLAUDE | CODEX | GEMINI

datatype DebatePhase =
    OPENING | ROUND | FINAL | BUILD_CHECK | CODE_ANALYSIS | ISSUE_DEFENSE
  | VERDICT_ASSIGNMENT | PARALLEL_FIX

datatype DebateStatus = PENDING | IN_PROGRESS | COMPLETED | FAILED | TIMEOUT

datatype IssueSeverity = CRITICAL | HIGH | MEDIUM | LOW

datatype IssueType = BUG | SECURITY | PERFORMANCE | DESIGN

text \<open>An enumeration member is its string at run time.\<close>

fun CLIType_value :: "CLIType \<Rightarrow> jsstring" where
  "CLIType_value CLAUDE = js ''claude''"
| "CLIType_value CODEX = js ''codex''"
| "CLIType_value GEMINI = js ''gemini''"

fun IssueSeverity_value :: "IssueSeverity \<Rightarrow> jsstring" where
  "IssueSeverity_value CRITICAL = js ''critical''"
| "IssueSeverity_value HIGH = js ''high''"
| "IssueSeverity_value MEDIUM = js ''medium''"
| "IssueSeverity_value LOW = js ''low''"

fun IssueType_value :: "IssueType \<Rightarrow> jsstring" where
  "IssueType_value BUG = js ''bug''"
| "IssueType_value SECURITY = js ''security''"
| "IssueType_value PERFORMANCE = js ''performance''"
| "IssueType_value DESIGN = js ''design''"

section \<open>Parsing the challenger's issues (code-review.ts)\<close>

text \<open>
  \<open>CodeIssue\<close> as it is at run time: the fields filled from the decoded payload hold
  whatever value the expression yields. \<open>assignedTo\<close> is \<open>Undefined\<close> until the
  verdict assigns it; \<open>fixed\<close> and \<open>fixResult\<close> are never written by the program and
  are left out.
\<close>

record CodeIssue =
  issue_id :: jsstring
  issue_type :: jsval
  severity :: jsval
  description :: jsval
  filePath :: jsval
  lineNumber :: jsval
  suggestedFix :: jsval
  assignedTo :: jsval

definition typeMap :: "(jsstring \<times> jsval) list" where
  "typeMap =
     [(js ''bug'', str (IssueType_value BUG)),
      (js ''security'', str (IssueType_value SECURITY)),
      (js ''performance'', str (IssueType_value PERFORMANCE)),
      (js ''design'', str (IssueType_value DESIGN))]"

definition parseIssueType :: "jsval \<Rightarrow> jsval option" where
  "parseIssueType t =
     (case lowered_key t of
        None \<Rightarrow> None
      | Some k \<Rightarrow> Some (or_else (object_get typeMap k) (str (IssueType_value BUG))))"

definition severityMap :: "(jsstring \<times> jsval) list" where
  "severityMap =
     [(js ''critical'', str (IssueSeverity_value CRITICAL)),
      (js ''high'', str (IssueSeverity_value HIGH)),
      (js ''medium'', str (IssueSeverity_value MEDIUM)),
      (js ''low'', str (IssueSeverity_value LOW))]"

definition parseSeverity :: "jsval \<Rightarrow> jsval option" where
  "parseSeverity sv =
     (case lowered_key sv of
        None \<Rightarrow> None
      | Some k \<Rightarrow> Some (or_else (object_get severityMap k) (str (IssueSeverity_value MEDIUM))))"

text \<open>
  The callback of \<open>parsed.issues.map\<close>, for the element at \<open>index\<close>; \<open>None\<close> when
  evaluating the object literal throws.
\<close>

definition make_issue :: "nat \<Rightarrow> json \<Rightarrow> CodeIssue option" where
  "make_issue index issue =
     do {
       t \<leftarrow> get_prop issue (js ''type'');
       ty \<leftarrow> parseIssueType t;
       sv \<leftarrow> get_prop issue (js ''severity'');
       sev \<leftarrow> parseSeverity sv;
       d \<leftarrow> get_prop issue (js ''description'');
       fp \<leftarrow> get_prop issue (js ''filePath'');
       ln \<leftarrow> get_prop issue (js ''lineNumber'');
       sf \<leftarrow> get_prop issue (js ''suggestedFix'');
       Some \<lparr>issue_id = js ''issue-'' @ nat_text (index + 1),
             issue_type = ty, severity = sev,
             description = or_else d (str []),
             filePath = fp, lineNumber = ln, suggestedFix = sf,
             assignedTo = Undefined\<rparr>
     }"

fun map_issues :: "nat \<Rightarrow> json list \<Rightarrow> CodeIssue list option" where
  "map_issues index [] = Some []"
| "map_issues index (issue # rest) =
     do {
       i \<leftarrow> make_issue index issue;
       is \<leftarrow> map_issues (index + 1) rest;
       Some (i # is)
     }"

text \<open>
  The body of the \<open>try\<close> block: \<open>None\<close> when it throws, \<open>Some None\<close> when it falls
  through to the \<open>return []\<close> after the block, \<open>Some (Some is)\<close> when it returns the
  mapped issues.
\<close>

definition parseIssues_try :: "jsstring \<Rightarrow> CodeIssue list option option" where
  "parseIssues_try output =
     do {
       parsed \<leftarrow> JSON_parse (extract_json output);
       issues \<leftarrow> get_prop parsed (js ''issues'');
       (case issues of
          Json (JArr items) \<Rightarrow>
            do { is \<leftarrow> map_issues 0 items; Some (Some is) }
        | _ \<Rightarrow> Some None)
     }"

definition parseIssuesFromOutput :: "jsstring \<Rightarrow> CodeIssue list" where
  "parseIssuesFromOutput output =
     (case parseIssues_try output of
        Some (Some is) \<Rightarrow> is
      | _ \<Rightarrow> [])"

section \<open>Parsing the moderator's verdict (code-review.ts)\<close>

definition cliMap :: "(jsstring \<times> jsval) list" where
  "cliMap =
     [(js ''claude'', str (CLIType_value CLAUDE)),
      (js ''codex'', str (CLIType_value CODEX)),
      (js ''gemini'', str (CLIType_value GEMINI))]"

definition parseCLIType :: "jsval \<Rightarrow> jsval option" where
  "parseCLIType cli =
     (case lowered_key cli of
        None \<Rightarrow> None
      | Some k \<Rightarrow> Some (or_else (object_get cliMap k) (str (CLIType_value CLAUDE))))"

text \<open>
  \<open>parsed.confirmedIssues.find((c) => c.issueId === issue.id)\<close>: the first entry whose
  \<open>issueId\<close> is the string \<open>id\<close>; \<open>Some None\<close> is \<open>undefined\<close> (no such
  entry), \<open>None\<close> a TypeError (a \<open>null\<close> entry was reached).
\<close>

fun find_confirmed :: "jsstring \<Rightarrow> json list \<Rightarrow> json option option" where
  "find_confirmed ident [] = Some None"
| "find_confirmed ident (c # cs) =
     do {
       v \<leftarrow> get_prop c (js ''issueId'');
       if v = str ident then Some (Some c) else find_confirmed ident cs
     }"

text \<open>The body of the \<open>for\<close> loop over the issues, appending to \<open>confirmedIssues\<close>.\<close>

fun assign_loop :: "json list \<Rightarrow> CodeIssue list \<Rightarrow> CodeIssue list option" where
  "assign_loop entries [] = Some []"
| "assign_loop entries (issue # rest) =
     do {
       found \<leftarrow> find_confirmed (issue_id issue) entries;
       kept \<leftarrow>
         (case found of
            None \<Rightarrow> Some []
          | Some c \<Rightarrow>
              do {
                flag \<leftarrow> get_prop c (js ''confirmed'');
                if truthy flag then
                  do {
                    a \<leftarrow> get_prop c (js ''assignTo'');
                    cli \<leftarrow> parseCLIType a;
                    Some [issue\<lparr>assignedTo := cli\<rparr>]
                  }
                else Some []
              });
       more \<leftarrow> assign_loop entries rest;
       Some (kept @ more)
     }"

definition parseVerdict_try :: "jsstring \<Rightarrow> CodeIssue list \<Rightarrow> CodeIssue list option option" where
  "parseVerdict_try output issues =
     do {
       parsed \<leftarrow> JSON_parse (extract_json output);
       confirmedIssues \<leftarrow> get_prop parsed (js ''confirmedIssues'');
       (case confirmedIssues of
          Json (JArr entries) \<Rightarrow>
            do { is \<leftarrow> assign_loop entries issues; Some (Some is) }
        | _ \<Rightarrow> Some None)
     }"

definition parseVerdictAndAssign :: "jsstring \<Rightarrow> CodeIssue list \<Rightarrow> CodeIssue list" where
  "parseVerdictAndAssign output issues =
     (case parseVerdict_try output issues of
        Some (Some is) \<Rightarrow> is
      | _ \<Rightarrow> issues)"

section \<open>The agents and \<open>createAgent\<close>\<close>

text \<open>
  An instance of one of the three subclasses of \<open>BaseCLIAgent\<close>: its \<open>cliType\<close>
  tells the subclass, which fixes the command and the arguments.
\<close>

record agent =
  agent_cliType :: CLIType
  agent_role :: DebateRole
  agent_timeout :: int
  agent_extraArgs :: "jsstring list"

text \<open>The constructors; a timeout that is \<open>undefined\<close> takes the default.\<close>

definition default_timeout :: "int option \<Rightarrow> int" where
  "default_timeout t = (case t of None \<Rightarrow> 300000 | Some ms \<Rightarrow> ms)"

definition ClaudeAgent :: "DebateRole \<Rightarrow> int option \<Rightarrow> agent" where
  "ClaudeAgent role t =
     \<lparr>agent_cliType = CLAUDE, agent_role = role, agent_timeout = default_timeout t,
      agent_extraArgs = [js ''--print'']\<rparr>"

definition CodexAgent :: "DebateRole \<Rightarrow> int option \<Rightarrow> agent" where
  "CodexAgent role t =
     \<lparr>agent_cliType = CODEX, agent_role = role, agent_timeout = default_timeout t,
      agent_extraArgs = []\<rparr>"

definition GeminiAgent :: "DebateRole \<Rightarrow> int option \<Rightarrow> agent" where
  "GeminiAgent role t =
     \<lparr>agent_cliType = GEMINI, agent_role = role, agent_timeout = default_timeout t,
      agent_extraArgs = [js ''--yolo'', js ''-o'', js ''text'']\<rparr>"

fun getCommand :: "agent \<Rightarrow> jsstring" where
  "getCommand a =
     (case agent_cliType a of
        CLAUDE \<Rightarrow> js ''claude''
      | CODEX \<Rightarrow> js ''codex''
      | GEMINI \<Rightarrow> js ''gemini'')"

text \<open>The prompt between double quotes, each double quote in it behind a backslash.\<close>

definition quoted :: "jsstring \<Rightarrow> jsstring" where
  "quoted prompt =
     [0x22] @ concat (map (\<lambda>c. if c = 0x22 then [0x5C, 0x22] else [c]) prompt) @ [0x22]"

fun getArgs :: "agent \<Rightarrow> jsstring \<Rightarrow> jsstring list" where
  "getArgs a prompt =
     (case agent_cliType a of
        CLAUDE \<Rightarrow> [js ''--print'', js ''-p'', quoted prompt] @ agent_extraArgs a
      | CODEX \<Rightarrow> [js ''--approval-mode'', js ''full-auto'', quoted prompt] @ agent_extraArgs a
      | GEMINI \<Rightarrow> [quoted prompt, js ''--yolo'', js ''-o'', js ''text''] @ agent_extraArgs a)"

text \<open>\<open>execute\<close> on an agent, with the prompt of its options.\<close>

definition execute :: "(jsstring \<Rightarrow> jsstring list \<Rightarrow> bool) \<Rightarrow> agent \<Rightarrow> jsstring \<Rightarrow>
    int \<Rightarrow> (int \<times> process_event) list \<Rightarrow> promise_state" where
  "execute refused a prompt startTime evs =
     execute_promise refused (getCommand a) (getArgs a prompt) startTime evs"

text \<open>
  What the program throws. \<open>UnsupportedCLIType v\<close> is the Error of \<open>createAgent\<close>,
  whose message is U+4E0D U+652F U+6301 U+7684, \<open>CLI\<close>, U+7C7B U+578B, a colon and the
  text of the value \<open>v\<close>.
\<close>

datatype exn = Error jsstring | UnsupportedCLIType jsval

text \<open>
  \<open>createAgent\<close>, the same function in orchestrator.ts and code-review.ts. At run
  time the argument is any value; the \<open>switch\<close> compares it with the three strings of
  the enumeration, and its \<open>default\<close> throws.
\<close>

definition createAgent :: "jsval \<Rightarrow> DebateRole \<Rightarrow> int option \<Rightarrow> exn + agent" where
  "createAgent cliType role t =
     (if cliType = str (CLIType_value CLAUDE) then Inr (ClaudeAgent role t)
      else if cliType = str (CLIType_value CODEX) then Inr (CodexAgent role t)
      else if cliType = str (CLIType_value GEMINI) then Inr (GeminiAgent role t)
      else Inl (UnsupportedCLIType cliType))"

section \<open>The environment of a run\<close>

text \<open>\<open>AgentConfig\<close> of types.ts (\<open>extraArgs\<close> is never read by the orchestrators).\<close>

record AgentConfig =
  cfg_cliType :: CLIType
  cfg_role :: DebateRole
  cfg_timeout :: "int option"

text \<open>What the build command did: it closed with a code, or it could not be started.\<close>

datatype build_outcome = BuildClosed "int option" jsstring jsstring | BuildError jsstring

text \<open>
  Everything a run takes from outside. \<open>w_available\<close>: whether \<open>which\<close> finds the
  command of a backend. \<open>w_settle n a p\<close>: how the promise of \<open>execute\<close> settles at
  the invocation number \<open>n\<close> of the run (counted from 0 in the order the invocations
  start), on agent \<open>a\<close> with prompt \<open>p\<close>: resolved with a result (\<open>Inr\<close>), or
  rejected (\<open>Inl\<close>, with the message of the error) when \<open>spawn\<close> threw; a promise
  that is not rejected is resolved at the latest when its timer fires.
  \<open>w_round_elapsed\<close> and \<open>w_fix_elapsed\<close>: the wall time measured for a round and
  for a fix task. \<open>w_build\<close>: the outcome of the build command. The identifiers made
  by \<open>uuidv4\<close> and the time stamps are left out of the model.
\<close>

record world =
  w_available :: "CLIType \<Rightarrow> bool"
  w_settle :: "nat \<Rightarrow> agent \<Rightarrow> jsstring \<Rightarrow> jsstring + AgentExecuteResult"
  w_round_elapsed :: "nat \<Rightarrow> int"
  w_fix_elapsed :: "nat \<Rightarrow> int"
  w_build :: build_outcome

definition isAvailable :: "world \<Rightarrow> agent \<Rightarrow> bool" where
  "isAvailable w a = w_available w (agent_cliType a)"

text \<open>
  The settlement of an invocation read as a result: the result that the promise is
  resolved with, and for a rejected promise a failed result that carries the message of
  the error. So \<open>res_success (w_execute w n a p)\<close> says that the invocation was resolved
  with success.
\<close>

definition w_execute :: "world \<Rightarrow> nat \<Rightarrow> agent \<Rightarrow> jsstring \<Rightarrow> AgentExecuteResult" where
  "w_execute w n a p =
     (case w_settle w n a p of
        Inr result \<Rightarrow> result
      | Inl e \<Rightarrow> \<lparr>res_success = False, res_output = [], res_error = Some e, res_duration = 0\<rparr>)"

text \<open>\<open>DebateMessage\<close> of types.ts, without \<open>id\<close> and \<open>timestamp\<close>.\<close>

record DebateMessage =
  m_role :: DebateRole
  m_cliType :: CLIType
  m_content :: jsstring
  m_phase :: DebatePhase
  m_roundNumber :: "nat option"

text \<open>
  The events handed to the callbacks, with the part of their data that tells phases,
  rounds, speakers and errors apart. The \<open>message:chunk\<close> events of streaming are left
  out: the model takes the result of an invocation as a whole.
\<close>

datatype event =
    DebateStart
  | DebateEnd DebateStatus
  | PhaseStart DebatePhase
  | PhaseEnd DebatePhase
  | RoundStart nat
  | RoundEnd nat
  | MessageStart DebateRole jsval
  | MessageEnd
  | ErrorEvent jsstring

text \<open>
  What an orchestrator changes while it runs: its transcript \<open>messages\<close>, the events it
  has emitted, and the executor invocations it has started, each in order.
\<close>

record orchestrator_state =
  os_messages :: "DebateMessage list"
  os_events :: "event list"
  os_invocations :: "(agent \<times> jsstring) list"

definition fresh :: orchestrator_state where
  "fresh = \<lparr>os_messages = [], os_events = [], os_invocations = []\<rparr>"

definition emit :: "event \<Rightarrow> orchestrator_state \<Rightarrow> orchestrator_state" where
  "emit e s = s\<lparr>os_events := os_events s @ [e]\<rparr>"

definition createMessage :: "DebateRole \<Rightarrow> CLIType \<Rightarrow> jsstring \<Rightarrow> DebatePhase \<Rightarrow> nat option \<Rightarrow>
    orchestrator_state \<Rightarrow> DebateMessage \<times> orchestrator_state" where
  "createMessage role cli content phase roundNumber s =
     (let message = \<lparr>m_role = role, m_cliType = cli, m_content = content, m_phase = phase,
                      m_roundNumber = roundNumber\<rparr>
      in (message, s\<lparr>os_messages := os_messages s @ [message]\<rparr>))"

text \<open>A call of \<open>execute\<close>, with the settlement its promise will have.\<close>

definition invoke :: "world \<Rightarrow> agent \<Rightarrow> jsstring \<Rightarrow> orchestrator_state \<Rightarrow>
    (jsstring + AgentExecuteResult) \<times> orchestrator_state" where
  "invoke w a prompt s =
     (w_settle w (length (os_invocations s)) a prompt,
      s\<lparr>os_invocations := os_invocations s @ [(a, prompt)]\<rparr>)"

text \<open>\<open>${result.error}\<close> in a template: the text, or \<open>undefined\<close>.\<close>

definition opt_text :: "jsstring option \<Rightarrow> jsstring" where
  "opt_text e = (case e of None \<Rightarrow> js ''undefined'' | Some m \<Rightarrow> m)"

text \<open>
  The block that every speaking step of both orchestrators repeats: emit
  \<open>message:start\<close>, await \<open>execute\<close>, throw an Error (the prefix, then the error of
  the result) if it failed, else create the message and emit \<open>message:end\<close>. When the
  promise is rejected, \<open>await\<close> throws its error. \<open>Inl\<close> is the message of the error
  thrown.
\<close>

definition speak :: "world \<Rightarrow> agent \<Rightarrow> DebateRole \<Rightarrow> CLIType \<Rightarrow> jsstring \<Rightarrow> jsstring \<Rightarrow>
    DebatePhase \<Rightarrow> nat option \<Rightarrow> orchestrator_state \<Rightarrow>
    (jsstring + DebateMessage) \<times> orchestrator_state" where
  "speak w a role cli prompt failure phase roundNumber s =
     (case invoke w a prompt (emit (MessageStart role (str (CLIType_value cli))) s) of
        (Inl e, s1) \<Rightarrow> (Inl e, s1)
      | (Inr result, s1) \<Rightarrow>
          if \<not> res_success result then (Inl (failure @ opt_text (res_error result)), s1)
          else (case createMessage role cli (res_output result) phase roundNumber s1 of
                  (message, s2) \<Rightarrow> (Inr message, emit MessageEnd s2)))"

text \<open>
  The prompt builders of prompts.ts. They are string templates over their arguments;
  their text is not reproduced, they are taken as any functions. The three builders that
  interpolate fields of decoded issues can throw: converting a field to a string is a
  TypeError when the field is an object whose \<open>toString\<close> is not callable, which a
  decoded object with a member of that name is. They return the prompt (\<open>Inr\<close>) or the
  message of the error thrown (\<open>Inl\<close>). The other builders interpolate strings, numbers
  and members of the enumerations, and return.
\<close>

record prompts =
  getModeratorOpeningPrompt :: "jsstring \<Rightarrow> jsstring"
  getModeratorEvaluationPrompt :: "jsstring \<Rightarrow> nat \<Rightarrow> DebateMessage list \<Rightarrow> jsstring"
  getModeratorFinalVerdictPrompt :: "jsstring \<Rightarrow> DebateMessage list \<Rightarrow> jsstring"
  getChallengerPrompt :: "jsstring \<Rightarrow> nat \<Rightarrow> DebateMessage list \<Rightarrow> jsstring"
  getDefenderPrompt :: "jsstring \<Rightarrow> nat \<Rightarrow> DebateMessage list \<Rightarrow> jsstring"
  getCodeReviewChallengerPrompt :: "jsstring \<Rightarrow> IssueType list option \<Rightarrow> jsstring"
  getCodeReviewDefenderPrompt :: "jsstring \<Rightarrow> CodeIssue list \<Rightarrow> jsstring + jsstring"
  getCodeReviewVerdictPrompt :: "jsstring \<Rightarrow> CodeIssue list \<Rightarrow> jsstring \<Rightarrow> jsstring + jsstring"
  getFixTaskPrompt :: "CodeIssue \<Rightarrow> jsstring \<Rightarrow> jsstring + jsstring"

section \<open>The debate orchestrator (orchestrator.ts)\<close>

record DebateConfig =
  dc_topic :: jsstring
  dc_rounds :: nat
  dc_moderator :: AgentConfig
  dc_challenger :: AgentConfig
  dc_defender :: AgentConfig
  dc_streaming :: bool

record RoundResult =
  rr_roundNumber :: nat
  rr_challengerMessage :: DebateMessage
  rr_defenderMessage :: DebateMessage
  rr_moderatorEvaluation :: DebateMessage
  rr_duration :: int

text \<open>\<open>DebateResult\<close>, without \<open>id\<close> and the times.\<close>

record DebateResult =
  dr_topic :: jsstring
  dr_status :: DebateStatus
  dr_opening :: "DebateMessage option"
  dr_rounds :: "RoundResult list"
  dr_finalVerdict :: "DebateMessage option"
  dr_error :: "jsstring option"

record DebateOrchestrator =
  o_config :: DebateConfig
  o_moderator :: agent
  o_challenger :: agent
  o_defender :: agent

text \<open>The constructor.\<close>

definition new_DebateOrchestrator :: "DebateConfig \<Rightarrow> exn + DebateOrchestrator" where
  "new_DebateOrchestrator config =
     (case createAgent (str (CLIType_value (cfg_cliType (dc_moderator config)))) MODERATOR
             (cfg_timeout (dc_moderator config)) of
        Inl e \<Rightarrow> Inl e
      | Inr moderator \<Rightarrow>
          (case createAgent (str (CLIType_value (cfg_cliType (dc_challenger config)))) CHALLENGER
                  (cfg_timeout (dc_challenger config)) of
             Inl e \<Rightarrow> Inl e
           | Inr challenger \<Rightarrow>
               (case createAgent (str (CLIType_value (cfg_cliType (dc_defender config)))) DEFENDER
                       (cfg_timeout (dc_defender config)) of
                  Inl e \<Rightarrow> Inl e
                | Inr defender \<Rightarrow>
                    Inr \<lparr>o_config = config, o_moderator = moderator,
                         o_challenger = challenger, o_defender = defender\<rparr>)))"

text \<open>The texts of the errors, by their code units.\<close>

definition unavailable_suffix :: jsstring where
  "unavailable_suffix = js '') '' @ [0x4E0D, 0x53EF, 0x7528]"

definition moderator_unavailable :: "CLIType \<Rightarrow> jsstring" where
  "moderator_unavailable cli =
     [0x4E3B, 0x6301, 0x4EBA] @ js '' CLI ('' @ CLIType_value cli @ unavailable_suffix"

definition challenger_unavailable :: "CLIType \<Rightarrow> jsstring" where
  "challenger_unavailable cli =
     [0x6311, 0x6218, 0x8005] @ js '' CLI ('' @ CLIType_value cli @ unavailable_suffix"

definition defender_unavailable :: "CLIType \<Rightarrow> jsstring" where
  "defender_unavailable cli =
     [0x8FA9, 0x62A4, 0x8005] @ js '' CLI ('' @ CLIType_value cli @ unavailable_suffix"

definition agents_unavailable :: jsstring where
  "agents_unavailable = js ''Agent '' @ [0x4E0D, 0x53EF, 0x7528] @ js '': ''"

definition opening_failed :: jsstring where
  "opening_failed = [0x4E3B, 0x6301, 0x4EBA, 0x5F00, 0x573A, 0x5931, 0x8D25] @ js '': ''"

definition challenge_failed :: jsstring where
  "challenge_failed = [0x6311, 0x6218, 0x8005, 0x8D28, 0x7591, 0x5931, 0x8D25] @ js '': ''"

definition defense_failed :: jsstring where
  "defense_failed = [0x8FA9, 0x62A4, 0x8005, 0x56DE, 0x5E94, 0x5931, 0x8D25] @ js '': ''"

definition evaluation_failed :: jsstring where
  "evaluation_failed = [0x4E3B, 0x6301, 0x4EBA, 0x8BC4, 0x4F30, 0x5931, 0x8D25] @ js '': ''"

definition final_verdict_failed :: jsstring where
  "final_verdict_failed = [0x6700, 0x7EC8, 0x88C1, 0x51B3, 0x5931, 0x8D25] @ js '': ''"

text \<open>\<open>errors.join(', ')\<close>\<close>

fun join :: "jsstring \<Rightarrow> jsstring list \<Rightarrow> jsstring" where
  "join sep [] = []"
| "join sep [x] = x"
| "join sep (x # y # ys) = x @ sep @ join sep (y # ys)"

text \<open>
  \<open>checkAgentsAvailable\<close>: the three probes, then one line for each role whose probe
  failed, in the order moderator, challenger, defender.
\<close>

definition checkAgentsAvailable :: "world \<Rightarrow> DebateOrchestrator \<Rightarrow> bool \<times> jsstring list" where
  "checkAgentsAvailable w orch =
     (let errors =
        (if \<not> isAvailable w (o_moderator orch)
         then [moderator_unavailable (cfg_cliType (dc_moderator (o_config orch)))] else []) @
        (if \<not> isAvailable w (o_challenger orch)
         then [challenger_unavailable (cfg_cliType (dc_challenger (o_config orch)))] else []) @
        (if \<not> isAvailable w (o_defender orch)
         then [defender_unavailable (cfg_cliType (dc_defender (o_config orch)))] else [])
      in (errors = [], errors))"

definition executeOpening :: "world \<Rightarrow> prompts \<Rightarrow> DebateOrchestrator \<Rightarrow> orchestrator_state \<Rightarrow>
    (jsstring + DebateMessage) \<times> orchestrator_state" where
  "executeOpening w P orch s =
     (case speak w (o_moderator orch) MODERATOR (cfg_cliType (dc_moderator (o_config orch)))
             (getModeratorOpeningPrompt P (dc_topic (o_config orch)))
             opening_failed OPENING None (emit (PhaseStart OPENING) s) of
        (Inl e, s1) \<Rightarrow> (Inl e, s1)
      | (Inr message, s1) \<Rightarrow> (Inr message, emit (PhaseEnd OPENING) s1))"

text \<open>
  \<open>executeRound\<close>: challenger, defender and moderator speak in this order, each with
  a prompt built from the transcript as it stands when the step begins.
\<close>

definition executeRound :: "world \<Rightarrow> prompts \<Rightarrow> DebateOrchestrator \<Rightarrow> nat \<Rightarrow> orchestrator_state \<Rightarrow>
    (jsstring + RoundResult) \<times> orchestrator_state" where
  "executeRound w P orch roundNumber s =
     (let s0 = emit (RoundStart roundNumber) s in
      case speak w (o_challenger orch) CHALLENGER (cfg_cliType (dc_challenger (o_config orch)))
             (getChallengerPrompt P (dc_topic (o_config orch)) roundNumber (os_messages s0))
             challenge_failed ROUND (Some roundNumber) s0 of
        (Inl e, s1) \<Rightarrow> (Inl e, s1)
      | (Inr challengerMessage, s1) \<Rightarrow>
          (case speak w (o_defender orch) DEFENDER (cfg_cliType (dc_defender (o_config orch)))
                  (getDefenderPrompt P (dc_topic (o_config orch)) roundNumber (os_messages s1))
                  defense_failed ROUND (Some roundNumber) s1 of
             (Inl e, s2) \<Rightarrow> (Inl e, s2)
           | (Inr defenderMessage, s2) \<Rightarrow>
               (case speak w (o_moderator orch) MODERATOR
                       (cfg_cliType (dc_moderator (o_config orch)))
                       (getModeratorEvaluationPrompt P (dc_topic (o_config orch)) roundNumber
                          (os_messages s2))
                       evaluation_failed ROUND (Some roundNumber) s2 of
                  (Inl e, s3) \<Rightarrow> (Inl e, s3)
                | (Inr moderatorEvaluation, s3) \<Rightarrow>
                    (Inr \<lparr>rr_roundNumber = roundNumber,
                          rr_challengerMessage = challengerMessage,
                          rr_defenderMessage = defenderMessage,
                          rr_moderatorEvaluation = moderatorEvaluation,
                          rr_duration = w_round_elapsed w roundNumber\<rparr>,
                     emit (RoundEnd roundNumber) s3))))"

definition executeFinalVerdict :: "world \<Rightarrow> prompts \<Rightarrow> DebateOrchestrator \<Rightarrow> orchestrator_state \<Rightarrow>
    (jsstring + DebateMessage) \<times> orchestrator_state" where
  "executeFinalVerdict w P orch s =
     (let s0 = emit (PhaseStart FINAL) s in
      case speak w (o_moderator orch) MODERATOR (cfg_cliType (dc_moderator (o_config orch)))
             (getModeratorFinalVerdictPrompt P (dc_topic (o_config orch)) (os_messages s0))
             final_verdict_failed FINAL None s0 of
        (Inl e, s1) \<Rightarrow> (Inl e, s1)
      | (Inr message, s1) \<Rightarrow> (Inr message, emit (PhaseEnd FINAL) s1))"

text \<open>
  The loop \<open>for (let i = 1; i <= rounds; i++)\<close>, from round \<open>i\<close> with \<open>k\<close> rounds
  still to run. It stops at the first round that throws; \<open>Some e\<close> is the message of
  that Error.
\<close>

fun rounds_loop :: "world \<Rightarrow> prompts \<Rightarrow> DebateOrchestrator \<Rightarrow> nat \<Rightarrow> nat \<Rightarrow> DebateResult \<Rightarrow>
    orchestrator_state \<Rightarrow> jsstring option \<times> DebateResult \<times> orchestrator_state" where
  "rounds_loop w P orch i 0 result s = (None, result, s)"
| "rounds_loop w P orch i (Suc k) result s =
     (case executeRound w P orch i s of
        (Inl e, s1) \<Rightarrow> (Some e, result, s1)
      | (Inr roundResult, s1) \<Rightarrow>
          rounds_loop w P orch (i + 1) k
            (result\<lparr>dr_rounds := dr_rounds result @ [roundResult]\<rparr>) s1)"

text \<open>The \<open>catch\<close> block of \<open>run\<close>.\<close>

definition debate_failed :: "jsstring \<Rightarrow> DebateResult \<Rightarrow> orchestrator_state \<Rightarrow>
    DebateResult \<times> orchestrator_state" where
  "debate_failed e result s =
     (result\<lparr>dr_status := FAILED, dr_error := Some e\<rparr>,
      emit (DebateEnd FAILED) (emit (ErrorEvent e) s))"

text \<open>\<open>run\<close> on a new orchestrator: the result and the final state.\<close>

definition DebateOrchestrator_run :: "world \<Rightarrow> prompts \<Rightarrow> DebateOrchestrator \<Rightarrow>
    DebateResult \<times> orchestrator_state" where
  "DebateOrchestrator_run w P orch =
     (let result = \<lparr>dr_topic = dc_topic (o_config orch), dr_status = PENDING,
                     dr_opening = None, dr_rounds = [], dr_finalVerdict = None,
                     dr_error = None\<rparr>
      in case checkAgentsAvailable w orch of
        (available, errors) \<Rightarrow>
          if \<not> available
          then debate_failed (agents_unavailable @ join (js '', '') errors) result fresh
          else
            (case executeOpening w P orch (emit DebateStart fresh) of
               (Inl e, s1) \<Rightarrow> debate_failed e (result\<lparr>dr_status := IN_PROGRESS\<rparr>) s1
             | (Inr opening, s1) \<Rightarrow>
                 (case rounds_loop w P orch 1 (dc_rounds (o_config orch))
                         (result\<lparr>dr_status := IN_PROGRESS, dr_opening := Some opening\<rparr>) s1 of
                    (Some e, result2, s2) \<Rightarrow> debate_failed e result2 s2
                  | (None, result2, s2) \<Rightarrow>
                      (case executeFinalVerdict w P orch s2 of
                         (Inl e, s3) \<Rightarrow> debate_failed e result2 s3
                       | (Inr finalVerdict, s3) \<Rightarrow>
                           (result2\<lparr>dr_finalVerdict := Some finalVerdict,
                                    dr_status := COMPLETED\<rparr>,
                            emit (DebateEnd COMPLETED) s3)))))"

section \<open>The code-review orchestrator (code-review.ts)\<close>

text \<open>
  \<open>CodeReviewConfig\<close>. The optional \<open>autoFix\<close> is \<open>False\<close> when undefined; the
  optional \<open>fixers\<close> and \<open>buildCommand\<close> are \<open>None\<close> when undefined.
\<close>

record CodeReviewConfig =
  cr_path :: jsstring
  cr_focus :: "IssueType list option"
  cr_buildCommand :: "jsstring option"
  cr_autoFix :: bool
  cr_challenger :: AgentConfig
  cr_defender :: AgentConfig
  cr_moderator :: AgentConfig
  cr_fixers :: "AgentConfig list option"
  cr_streaming :: bool

record BuildCheckResult =
  bc_success :: bool
  bc_command :: jsstring
  bc_output :: jsstring
  bc_errors :: "jsstring list option"

datatype task_status = Task_pending | Task_in_progress | Task_completed | Task_failed

text \<open>\<open>FixTask\<close>, without \<open>id\<close>; \<open>result\<close> and \<open>duration\<close> are \<open>None\<close> until set.\<close>

record FixTask =
  ft_issue :: CodeIssue
  ft_assignedCLI :: jsval
  ft_status :: task_status
  ft_result :: "jsstring option"
  ft_duration :: "int option"

text \<open>\<open>CodeReviewResult\<close>, without \<open>id\<close> and the times.\<close>

record CodeReviewResult =
  rv_path :: jsstring
  rv_status :: DebateStatus
  rv_buildCheck :: "BuildCheckResult option"
  rv_issues :: "CodeIssue list"
  rv_defenseResponses :: "DebateMessage list option"
  rv_verdict :: "DebateMessage option"
  rv_fixTasks :: "FixTask list option"
  rv_error :: "jsstring option"

text \<open>
  The orchestrator object. \<open>fixers\<close> is a \<open>Map\<close> from the run-time value of a
  backend to its agent, kept as the list of its entries in insertion order.
\<close>

record CodeReviewOrchestrator =
  c_config :: CodeReviewConfig
  c_challenger :: agent
  c_defender :: agent
  c_moderator :: agent
  c_fixers :: "(jsval \<times> agent) list"

text \<open>
  The loop of the constructor over \<open>config.fixers\<close>: a backend that has an entry
  already is skipped.
\<close>

fun add_fixers :: "AgentConfig list \<Rightarrow> (jsval \<times> agent) list \<Rightarrow> exn + (jsval \<times> agent) list" where
  "add_fixers [] fixers = Inr fixers"
| "add_fixers (fixer # rest) fixers =
     (if map_of fixers (str (CLIType_value (cfg_cliType fixer))) \<noteq> None
      then add_fixers rest fixers
      else (case createAgent (str (CLIType_value (cfg_cliType fixer))) DEFENDER (cfg_timeout fixer) of
              Inl e \<Rightarrow> Inl e
            | Inr a \<Rightarrow> add_fixers rest (fixers @ [(str (CLIType_value (cfg_cliType fixer)), a)])))"

text \<open>The three default fixers, set when the loop left the map empty.\<close>

definition default_fixers :: "exn + (jsval \<times> agent) list" where
  "default_fixers =
     (case createAgent (str (CLIType_value CLAUDE)) DEFENDER None of
        Inl e \<Rightarrow> Inl e
      | Inr a \<Rightarrow>
          (case createAgent (str (CLIType_value CODEX)) DEFENDER None of
             Inl e \<Rightarrow> Inl e
           | Inr b \<Rightarrow>
               (case createAgent (str (CLIType_value GEMINI)) DEFENDER None of
                  Inl e \<Rightarrow> Inl e
                | Inr c \<Rightarrow>
                    Inr [(str (CLIType_value CLAUDE), a), (str (CLIType_value CODEX), b),
                         (str (CLIType_value GEMINI), c)])))"

definition new_CodeReviewOrchestrator :: "CodeReviewConfig \<Rightarrow> exn + CodeReviewOrchestrator" where
  "new_CodeReviewOrchestrator config =
     (case createAgent (str (CLIType_value (cfg_cliType (cr_challenger config)))) CHALLENGER
             (cfg_timeout (cr_challenger config)) of
        Inl e \<Rightarrow> Inl e
      | Inr challenger \<Rightarrow>
          (case createAgent (str (CLIType_value (cfg_cliType (cr_defender config)))) DEFENDER
                  (cfg_timeout (cr_defender config)) of
             Inl e \<Rightarrow> Inl e
           | Inr defender \<Rightarrow>
               (case createAgent (str (CLIType_value (cfg_cliType (cr_moderator config)))) MODERATOR
                       (cfg_timeout (cr_moderator config)) of
                  Inl e \<Rightarrow> Inl e
                | Inr moderator \<Rightarrow>
                    (case add_fixers (case cr_fixers config of None \<Rightarrow> [] | Some fs \<Rightarrow> fs) [] of
                       Inl e \<Rightarrow> Inl e
                     | Inr fixers \<Rightarrow>
                         (case (if fixers = [] then default_fixers else Inr fixers) of
                            Inl e \<Rightarrow> Inl e
                          | Inr fixers1 \<Rightarrow>
                              Inr \<lparr>c_config = config, c_challenger = challenger,
                                   c_defender = defender, c_moderator = moderator,
                                   c_fixers = fixers1\<rparr>)))))"

definition analysis_failed :: jsstring where
  "analysis_failed = [0x6311, 0x6218, 0x8005, 0x5206, 0x6790, 0x5931, 0x8D25] @ js '': ''"

definition verdict_failed :: jsstring where
  "verdict_failed = [0x4E3B, 0x6301, 0x4EBA, 0x88C1, 0x51B3, 0x5931, 0x8D25] @ js '': ''"

definition build_failed :: jsstring where
  "build_failed = [0x6784, 0x5EFA, 0x5931, 0x8D25]"

text \<open>\<open>s.split('\n')\<close>\<close>

fun split_lines :: "jsstring \<Rightarrow> jsstring \<Rightarrow> jsstring list" where
  "split_lines acc [] = [rev acc]"
| "split_lines acc (c # cs) =
     (if c = 0x0A then rev acc # split_lines [] cs else split_lines (c # acc) cs)"

text \<open>
  Phase 0. The \<open>close\<close> callback emits \<open>phase:end\<close> and resolves the promise with
  the result of the build. When the launch fails, Node runs the \<open>error\<close> callback and
  then the \<open>close\<close> callback: the first resolves the promise with the failure, the
  second still emits \<open>phase:end\<close>, and its \<open>resolve\<close> has no effect. The command
  and the path are configuration; \<open>spawn\<close> is taken to return the child process.
\<close>

definition executeBuildCheck :: "world \<Rightarrow> CodeReviewOrchestrator \<Rightarrow> orchestrator_state \<Rightarrow>
    BuildCheckResult \<times> orchestrator_state" where
  "executeBuildCheck w orch s =
     (let command = (case cr_buildCommand (c_config orch) of
                       None \<Rightarrow> js ''npm run build''
                     | Some c \<Rightarrow> if c = [] then js ''npm run build'' else c);
          s0 = emit (PhaseStart BUILD_CHECK) s
      in case w_build w of
        BuildClosed code out err \<Rightarrow>
          (\<lparr>bc_success = (code = Some 0), bc_command = command, bc_output = out @ err,
            bc_errors = (if code \<noteq> Some 0
                         then Some (filter (\<lambda>l. l \<noteq> []) (split_lines [] err)) else None)\<rparr>,
           emit (PhaseEnd BUILD_CHECK) s0)
      | BuildError message \<Rightarrow>
          (\<lparr>bc_success = False, bc_command = command, bc_output = [],
            bc_errors = Some [message]\<rparr>,
           emit (PhaseEnd BUILD_CHECK) s0))"

text \<open>Phase 1.\<close>

definition executeChallengerAnalysis :: "world \<Rightarrow> prompts \<Rightarrow> CodeReviewOrchestrator \<Rightarrow>
    orchestrator_state \<Rightarrow> (jsstring + CodeIssue list) \<times> orchestrator_state" where
  "executeChallengerAnalysis w P orch s =
     (case speak w (c_challenger orch) CHALLENGER (cfg_cliType (cr_challenger (c_config orch)))
             (getCodeReviewChallengerPrompt P (cr_path (c_config orch)) (cr_focus (c_config orch)))
             analysis_failed CODE_ANALYSIS None (emit (PhaseStart CODE_ANALYSIS) s) of
        (Inl e, s1) \<Rightarrow> (Inl e, s1)
      | (Inr message, s1) \<Rightarrow>
          (Inr (parseIssuesFromOutput (m_content message)), emit (PhaseEnd CODE_ANALYSIS) s1))"

text \<open>
  Phase 2. The prompt is built after \<open>phase:start\<close> is emitted; an error thrown by
  the builder leaves the method there.
\<close>

definition executeDefenderResponse :: "world \<Rightarrow> prompts \<Rightarrow> CodeReviewOrchestrator \<Rightarrow>
    CodeIssue list \<Rightarrow> orchestrator_state \<Rightarrow> (jsstring + DebateMessage) \<times> orchestrator_state" where
  "executeDefenderResponse w P orch issues s =
     (case getCodeReviewDefenderPrompt P (cr_path (c_config orch)) issues of
        Inl e \<Rightarrow> (Inl e, emit (PhaseStart ISSUE_DEFENSE) s)
      | Inr prompt \<Rightarrow>
          (case speak w (c_defender orch) DEFENDER (cfg_cliType (cr_defender (c_config orch)))
                  prompt defense_failed ISSUE_DEFENSE None (emit (PhaseStart ISSUE_DEFENSE) s) of
             (Inl e, s1) \<Rightarrow> (Inl e, s1)
           | (Inr message, s1) \<Rightarrow> (Inr message, emit (PhaseEnd ISSUE_DEFENSE) s1)))"

text \<open>Phase 3, with its prompt built as in phase 2.\<close>

definition executeModeratorVerdict :: "world \<Rightarrow> prompts \<Rightarrow> CodeReviewOrchestrator \<Rightarrow>
    CodeIssue list \<Rightarrow> jsstring \<Rightarrow> orchestrator_state \<Rightarrow>
    (jsstring + DebateMessage \<times> CodeIssue list) \<times> orchestrator_state" where
  "executeModeratorVerdict w P orch issues defenseResponse s =
     (case getCodeReviewVerdictPrompt P (cr_path (c_config orch)) issues defenseResponse of
        Inl e \<Rightarrow> (Inl e, emit (PhaseStart VERDICT_ASSIGNMENT) s)
      | Inr prompt \<Rightarrow>
          (case speak w (c_moderator orch) MODERATOR (cfg_cliType (cr_moderator (c_config orch)))
                  prompt verdict_failed VERDICT_ASSIGNMENT None
                  (emit (PhaseStart VERDICT_ASSIGNMENT) s) of
             (Inl e, s1) \<Rightarrow> (Inl e, s1)
           | (Inr message, s1) \<Rightarrow>
               (Inr (message, parseVerdictAndAssign (m_content message) issues),
                emit (PhaseEnd VERDICT_ASSIGNMENT) s1)))"

text \<open>
  Phase 4. The issues are grouped in a \<open>Map\<close> under \<open>issue.assignedTo ||
  CLIType.CLAUDE\<close>; the groups keep the order in which their keys first appear.
\<close>

fun group_add :: "jsval \<Rightarrow> CodeIssue \<Rightarrow> (jsval \<times> CodeIssue list) list \<Rightarrow> (jsval \<times> CodeIssue list) list" where
  "group_add cli issue [] = [(cli, [issue])]"
| "group_add cli issue ((k, is) # groups) =
     (if k = cli then (k, is @ [issue]) # groups else (k, is) # group_add cli issue groups)"

definition issuesByCliType :: "CodeIssue list \<Rightarrow> (jsval \<times> CodeIssue list) list" where
  "issuesByCliType issues =
     foldl (\<lambda>groups issue.
              group_add (or_else (assignedTo issue) (str (CLIType_value CLAUDE))) issue groups)
       [] issues"

text \<open>
  The calls of \<open>executeFixTask\<close> in the order of the nested loops: a group whose
  backend has no fixer is skipped.
\<close>

definition planned_fixes :: "(jsval \<times> agent) list \<Rightarrow> (jsval \<times> CodeIssue list) list \<Rightarrow>
    (agent \<times> jsval \<times> CodeIssue) list" where
  "planned_fixes fixers groups =
     concat (map (\<lambda>(cli, cliIssues).
                    case map_of fixers cli of
                      None \<Rightarrow> []
                    | Some fixer \<Rightarrow> map (\<lambda>issue. (fixer, cli, issue)) cliIssues)
              groups)"

text \<open>
  \<open>executeFixTask\<close> up to its \<open>await\<close>, for the task at position \<open>k\<close>: the
  task is created in progress, \<open>message:start\<close> is emitted, the prompt is built and
  the fixer is invoked; the task is then pending with the promise of that invocation
  (\<open>Some\<close>, with the settlement it will have). If the builder throws, the \<open>catch\<close>
  block settles the task at once as failed, with the message of the error as its result
  and the measured time; nothing is invoked and no \<open>message:end\<close> is emitted. The
  method runs as soon as it is called, so the tasks start in the order of the calls.
\<close>

definition start_fix_task :: "world \<Rightarrow> prompts \<Rightarrow> jsstring \<Rightarrow> nat \<Rightarrow> agent \<times> jsval \<times> CodeIssue \<Rightarrow>
    orchestrator_state \<Rightarrow>
    (FixTask \<times> (jsstring + AgentExecuteResult) option) \<times> orchestrator_state" where
  "start_fix_task w P path k call s =
     (case call of
        (fixer, cli, issue) \<Rightarrow>
          (case getFixTaskPrompt P issue path of
             Inl e \<Rightarrow>
               ((\<lparr>ft_issue = issue, ft_assignedCLI = cli, ft_status = Task_failed,
                  ft_result = Some e, ft_duration = Some (w_fix_elapsed w k)\<rparr>, None),
                emit (MessageStart DEFENDER cli) s)
           | Inr prompt \<Rightarrow>
               (case invoke w fixer prompt (emit (MessageStart DEFENDER cli) s) of
                  (settlement, s1) \<Rightarrow>
                    ((\<lparr>ft_issue = issue, ft_assignedCLI = cli, ft_status = Task_in_progress,
                       ft_result = None, ft_duration = None\<rparr>, Some settlement), s1))))"

fun start_fix_tasks :: "world \<Rightarrow> prompts \<Rightarrow> jsstring \<Rightarrow> nat \<Rightarrow> (agent \<times> jsval \<times> CodeIssue) list \<Rightarrow>
    orchestrator_state \<Rightarrow>
    (FixTask \<times> (jsstring + AgentExecuteResult) option) list \<times> orchestrator_state" where
  "start_fix_tasks w P path k [] s = ([], s)"
| "start_fix_tasks w P path k (call # calls) s =
     (case start_fix_task w P path k call s of
        (started, s1) \<Rightarrow>
          (case start_fix_tasks w P path (Suc k) calls s1 of
             (rest, s2) \<Rightarrow> (started # rest, s2)))"

text \<open>
  \<open>executeFixTask\<close> after its \<open>await\<close>, for the pending task at position \<open>k\<close>.
  When the promise was resolved, the task takes its final status, the output of the
  invocation as its result and the measured time, and \<open>message:end\<close> is emitted. When
  it was rejected, the \<open>catch\<close> block sets the task failed, with the message of the
  error as its result and the measured time, and emits nothing. A task that is settled
  already is not resumed.
\<close>

definition finish_fix_task :: "world \<Rightarrow> nat \<Rightarrow> FixTask \<times> (jsstring + AgentExecuteResult) option \<Rightarrow>
    FixTask \<times> (jsstring + AgentExecuteResult) option" where
  "finish_fix_task w k started =
     (case started of
        (task, None) \<Rightarrow> (task, None)
      | (task, Some (Inl e)) \<Rightarrow>
          (task\<lparr>ft_status := Task_failed, ft_result := Some e,
                ft_duration := Some (w_fix_elapsed w k)\<rparr>, Some (Inl e))
      | (task, Some (Inr result)) \<Rightarrow>
          (task\<lparr>ft_status := (if res_success result then Task_completed else Task_failed),
                ft_result := Some (res_output result),
                ft_duration := Some (w_fix_elapsed w k)\<rparr>, Some (Inr result)))"

text \<open>What that resumption emits: \<open>message:end\<close>, on the resolved path only.\<close>

definition finish_events :: "FixTask \<times> (jsstring + AgentExecuteResult) option \<Rightarrow>
    orchestrator_state \<Rightarrow> orchestrator_state" where
  "finish_events started s =
     (case snd started of
        Some (Inr result) \<Rightarrow> emit MessageEnd s
      | _ \<Rightarrow> s)"

text \<open>
  The promises settle in the order of the times the tasks measure (equal times in the
  order of the calls); each resumes its own task. \<open>Promise.all\<close> resolves when all
  have.
\<close>

definition pending :: "(FixTask \<times> (jsstring + AgentExecuteResult) option) list \<Rightarrow> nat list" where
  "pending tasks = filter (\<lambda>k. snd (tasks ! k) \<noteq> None) [0..<length tasks]"

definition completion_order :: "world \<Rightarrow> (FixTask \<times> (jsstring + AgentExecuteResult) option) list \<Rightarrow>
    nat list" where
  "completion_order w tasks = sort_key (w_fix_elapsed w) (pending tasks)"

fun resume_fix_tasks :: "world \<Rightarrow> nat list \<Rightarrow>
    (FixTask \<times> (jsstring + AgentExecuteResult) option) list \<Rightarrow>
    orchestrator_state \<Rightarrow>
    (FixTask \<times> (jsstring + AgentExecuteResult) option) list \<times> orchestrator_state" where
  "resume_fix_tasks w [] tasks s = (tasks, s)"
| "resume_fix_tasks w (k # ks) tasks s =
     resume_fix_tasks w ks (tasks[k := finish_fix_task w k (tasks ! k)])
       (finish_events (tasks ! k) s)"

definition executeParallelFix :: "world \<Rightarrow> prompts \<Rightarrow> CodeReviewOrchestrator \<Rightarrow> CodeIssue list \<Rightarrow>
    orchestrator_state \<Rightarrow> FixTask list \<times> orchestrator_state" where
  "executeParallelFix w P orch issues s =
     (if \<not> cr_autoFix (c_config orch) \<or> issues = [] then ([], s)
      else
        (case start_fix_tasks w P (cr_path (c_config orch)) 0
                (planned_fixes (c_fixers orch) (issuesByCliType issues))
                (emit (PhaseStart PARALLEL_FIX) s) of
           (started, s1) \<Rightarrow>
             (case resume_fix_tasks w (completion_order w started) started s1 of
                (finished, s2) \<Rightarrow> (map fst finished, emit (PhaseEnd PARALLEL_FIX) s2))))"

text \<open>The \<open>catch\<close> block of \<open>run\<close>.\<close>

definition review_failed :: "jsstring \<Rightarrow> CodeReviewResult \<Rightarrow> orchestrator_state \<Rightarrow>
    CodeReviewResult \<times> orchestrator_state" where
  "review_failed e result s =
     (result\<lparr>rv_status := FAILED, rv_error := Some e\<rparr>,
      emit (DebateEnd FAILED) (emit (ErrorEvent e) s))"

text \<open>The run after the build check.\<close>

definition review_phases :: "world \<Rightarrow> prompts \<Rightarrow> CodeReviewOrchestrator \<Rightarrow> CodeReviewResult \<Rightarrow>
    orchestrator_state \<Rightarrow> CodeReviewResult \<times> orchestrator_state" where
  "review_phases w P orch result s =
     (case executeChallengerAnalysis w P orch s of
        (Inl e, s1) \<Rightarrow> review_failed e result s1
      | (Inr issues, s1) \<Rightarrow>
          if issues = []
          then (result\<lparr>rv_issues := issues, rv_status := COMPLETED\<rparr>,
                emit (DebateEnd COMPLETED) s1)
          else
            (case executeDefenderResponse w P orch issues s1 of
               (Inl e, s2) \<Rightarrow> review_failed e (result\<lparr>rv_issues := issues\<rparr>) s2
             | (Inr defenseMessage, s2) \<Rightarrow>
                 (case executeModeratorVerdict w P orch issues (m_content defenseMessage) s2 of
                    (Inl e, s3) \<Rightarrow>
                      review_failed e
                        (result\<lparr>rv_issues := issues,
                                rv_defenseResponses := Some [defenseMessage]\<rparr>) s3
                  | (Inr (verdict, confirmedIssues), s3) \<Rightarrow>
                      (let result3 = result\<lparr>rv_issues := confirmedIssues,
                                             rv_defenseResponses := Some [defenseMessage],
                                             rv_verdict := Some verdict\<rparr>
                       in if cr_autoFix (c_config orch) \<and> confirmedIssues \<noteq> []
                          then (case executeParallelFix w P orch confirmedIssues s3 of
                                  (fixTasks, s4) \<Rightarrow>
                                    (result3\<lparr>rv_fixTasks := Some fixTasks,
                                             rv_status := COMPLETED\<rparr>,
                                     emit (DebateEnd COMPLETED) s4))
                          else (result3\<lparr>rv_status := COMPLETED\<rparr>,
                                emit (DebateEnd COMPLETED) s3)))))"

text \<open>\<open>run\<close> on a new orchestrator: the result and the final state.\<close>

definition CodeReviewOrchestrator_run :: "world \<Rightarrow> prompts \<Rightarrow> CodeReviewOrchestrator \<Rightarrow>
    CodeReviewResult \<times> orchestrator_state" where
  "CodeReviewOrchestrator_run w P orch =
     (let result = \<lparr>rv_path = cr_path (c_config orch), rv_status = IN_PROGRESS,
                     rv_buildCheck = None, rv_issues = [], rv_defenseResponses = None,
                     rv_verdict = None, rv_fixTasks = None, rv_error = None\<rparr>;
          s0 = emit DebateStart fresh
      in case cr_buildCommand (c_config orch) of
        None \<Rightarrow> review_phases w P orch result s0
      | Some command \<Rightarrow>
          if command = [] then review_phases w P orch result s0
          else
            (case executeBuildCheck w orch s0 of
               (buildCheck, s1) \<Rightarrow>
                 review_phases w P orch (result\<lparr>rv_buildCheck := Some buildCheck\<rparr>)
                   (if bc_success buildCheck then s1 else emit (ErrorEvent build_failed) s1)))"

section \<open>Auxiliary notions for the statements\<close>

text \<open>The number that a decimal text denotes, and the id generated for a position.\<close>

definition text_nat :: "jsstring \<Rightarrow> nat" where
  "text_nat s = foldl (\<lambda>a d. 10 * a + (d - 0x30)) 0 s"

definition generated_id :: "nat \<Rightarrow> jsstring" where
  "generated_id index = js ''issue-'' @ nat_text (index + 1)"

text \<open>The definitions that evaluate the parsing layer on a concrete text.\<close>

lemmas eval_defs = js_def is_ws_def toLowerCase_def lower_unit_def
  is_json_ws_def is_digit_def hex_value_def escape_value_def digits_value_def
  lex_sign_def lex_int_def lex_frac_def lex_exp_sign_def lex_exp_def lex_number_def lex_token_def
  start_value_def start_member_def after_value_def parse_step_def JSON_parse_def
  str_def number_truthy_def or_else_def object_prototype_keys_def object_get_def
  fence_open_def fence_close_def closes_here_def match_here_def extract_json_def
  typeMap_def parseIssueType_def severityMap_def parseSeverity_def make_issue_def
  parseIssues_try_def parseIssuesFromOutput_def cliMap_def parseCLIType_def
  parseVerdict_try_def parseVerdictAndAssign_def nat_text.simps

text \<open>
  The category that a payload item names, following the issue-discovery shape of the
  specification: the string under \<open>type\<close> (\<open>severity\<close>), compared without regard
  to case with the members of the enumeration.
\<close>

definition named_IssueType :: "jsstring \<Rightarrow> IssueType option" where
  "named_IssueType s =
     find (\<lambda>t. IssueType_value t = toLowerCase s) [BUG, SECURITY, PERFORMANCE, DESIGN]"

definition named_IssueSeverity :: "jsstring \<Rightarrow> IssueSeverity option" where
  "named_IssueSeverity s =
     find (\<lambda>t. IssueSeverity_value t = toLowerCase s) [CRITICAL, HIGH, MEDIUM, LOW]"

fun payload_type :: "json \<Rightarrow> IssueType option" where
  "payload_type (JObj ms) =
     (case map_of (rev ms) (js ''type'') of
        Some (JStr s) \<Rightarrow> named_IssueType s
      | _ \<Rightarrow> None)"
| "payload_type v = None"

fun payload_severity :: "json \<Rightarrow> IssueSeverity option" where
  "payload_severity (JObj ms) =
     (case map_of (rev ms) (js ''severity'') of
        Some (JStr s) \<Rightarrow> named_IssueSeverity s
      | _ \<Rightarrow> None)"
| "payload_severity v = None"

text \<open>
  What a payload item holds under a name: its own member of that name, else
  \<open>undefined\<close>. And an item that the conversion can read: it is not \<open>null\<close>, and its
  \<open>type\<close> and its \<open>severity\<close> are each a string, \<open>null\<close> or absent.
\<close>

fun payload_field :: "json \<Rightarrow> jsstring \<Rightarrow> jsval" where
  "payload_field (JObj ms) k = (case map_of (rev ms) k of Some v \<Rightarrow> Json v | None \<Rightarrow> Undefined)"
| "payload_field v k = Undefined"

fun nameable :: "jsval \<Rightarrow> bool" where
  "nameable Undefined = True"
| "nameable (Json JNull) = True"
| "nameable (Json (JStr s)) = True"
| "nameable v = False"

definition readable_item :: "json \<Rightarrow> bool" where
  "readable_item item \<longleftrightarrow>
     item \<noteq> JNull \<and> nameable (payload_field item (js ''type'')) \<and>
     nameable (payload_field item (js ''severity''))"

text \<open>
  The verdict shape of the specification: an entry is an object whose \<open>assignTo\<close> is a
  string, \<open>null\<close> or absent. The entry that decides an issue is the first one with its
  id; it confirms when its \<open>confirmed\<close> is truthy.
\<close>

fun wellformed_entry :: "json \<Rightarrow> bool" where
  "wellformed_entry (JObj ms) =
     (case map_of (rev ms) (js ''assignTo'') of
        None \<Rightarrow> True
      | Some JNull \<Rightarrow> True
      | Some (JStr s) \<Rightarrow> True
      | Some v \<Rightarrow> False)"
| "wellformed_entry v = False"

definition first_entry :: "jsstring \<Rightarrow> json list \<Rightarrow> json option" where
  "first_entry ident entries = find (\<lambda>c. get_prop c (js ''issueId'') = Some (str ident)) entries"

definition entry_confirms :: "json \<Rightarrow> bool" where
  "entry_confirms c = (case get_prop c (js ''confirmed'') of Some v \<Rightarrow> truthy v | None \<Rightarrow> False)"

text \<open>
  The backend that an entry names, following the specification: the one of the three
  whose identity its \<open>assignTo\<close> spells, in any letter case, and \<open>claude\<close> when
  \<open>assignTo\<close> is absent, \<open>null\<close> or spells none of them.
\<close>

definition named_CLIType :: "jsstring \<Rightarrow> CLIType option" where
  "named_CLIType s = find (\<lambda>c. CLIType_value c = toLowerCase s) [CLAUDE, CODEX, GEMINI]"

fun entry_backend :: "json \<Rightarrow> CLIType" where
  "entry_backend (JObj ms) =
     (case map_of (rev ms) (js ''assignTo'') of
        Some (JStr s) \<Rightarrow> (case named_CLIType s of Some c \<Rightarrow> c | None \<Rightarrow> CLAUDE)
      | _ \<Rightarrow> CLAUDE)"
| "entry_backend v = CLAUDE"

definition verdict_confirms :: "json list \<Rightarrow> jsstring \<Rightarrow> bool" where
  "verdict_confirms entries ident =
     (case first_entry ident entries of None \<Rightarrow> False | Some c \<Rightarrow> entry_confirms c)"

definition verdict_backend :: "json list \<Rightarrow> jsstring \<Rightarrow> CLIType" where
  "verdict_backend entries ident =
     (case first_entry ident entries of None \<Rightarrow> CLAUDE | Some c \<Rightarrow> entry_backend c)"

text \<open>
  The issues that a verdict keeps, before anything is assigned; and an entry whose
  \<open>assignTo\<close>, lowered, is not the name of a member of \<open>Object.prototype\<close>.
\<close>

definition kept_issues :: "json list \<Rightarrow> CodeIssue list \<Rightarrow> CodeIssue list" where
  "kept_issues entries issues = filter (\<lambda>i. verdict_confirms entries (issue_id i)) issues"

fun names_backend :: "json \<Rightarrow> bool" where
  "names_backend (JObj ms) =
     (case map_of (rev ms) (js ''assignTo'') of
        Some (JStr s) \<Rightarrow> toLowerCase s \<notin> set object_prototype_keys
      | _ \<Rightarrow> True)"
| "names_backend v = True"

text \<open>
  Notions for the runs: the three messages of a round in transcript order; a world in
  which every invocation succeeds; a round whose messages carry the roles, the phase and
  the round number they should; a world in which the three backends of a debate are
  available; and the lines of the availability error, one for each role whose backend is
  not.
\<close>

definition round_messages :: "RoundResult \<Rightarrow> DebateMessage list" where
  "round_messages r = [rr_challengerMessage r, rr_defenderMessage r, rr_moderatorEvaluation r]"

definition all_succeed :: "world \<Rightarrow> bool" where
  "all_succeed w \<longleftrightarrow> (\<forall>n a p. res_success (w_execute w n a p))"

definition well_formed_round :: "DebateOrchestrator \<Rightarrow> RoundResult \<Rightarrow> bool" where
  "well_formed_round orch r \<longleftrightarrow>
     map m_role (round_messages r) = [CHALLENGER, DEFENDER, MODERATOR] \<and>
     map m_phase (round_messages r) = [ROUND, ROUND, ROUND] \<and>
     map m_roundNumber (round_messages r) = replicate 3 (Some (rr_roundNumber r))"

definition all_available :: "world \<Rightarrow> DebateConfig \<Rightarrow> bool" where
  "all_available w config \<longleftrightarrow>
     w_available w (cfg_cliType (dc_moderator config)) \<and>
     w_available w (cfg_cliType (dc_challenger config)) \<and>
     w_available w (cfg_cliType (dc_defender config))"

definition unavailable_lines :: "world \<Rightarrow> DebateConfig \<Rightarrow> jsstring list" where
  "unavailable_lines w config =
     (if w_available w (cfg_cliType (dc_moderator config)) then []
      else [moderator_unavailable (cfg_cliType (dc_moderator config))]) @
     (if w_available w (cfg_cliType (dc_challenger config)) then []
      else [challenger_unavailable (cfg_cliType (dc_challenger config))]) @
     (if w_available w (cfg_cliType (dc_defender config)) then []
      else [defender_unavailable (cfg_cliType (dc_defender config))])"

text \<open>Worlds, prompts and configurations on which the runs are evaluated below.\<close>

definition succeed_with :: "jsstring \<Rightarrow> AgentExecuteResult" where
  "succeed_with out = \<lparr>res_success = True, res_output = out, res_error = None, res_duration = 0\<rparr>"

definition fail_with :: "jsstring \<Rightarrow> jsstring \<Rightarrow> AgentExecuteResult" where
  "fail_with out message =
     \<lparr>res_success = False, res_output = out, res_error = Some message, res_duration = 0\<rparr>"

definition world_all_ok :: "jsstring \<Rightarrow> world" where
  "world_all_ok out =
     \<lparr>w_available = (\<lambda>c. True), w_settle = (\<lambda>n a p. Inr (succeed_with out)),
      w_round_elapsed = (\<lambda>n. 0), w_fix_elapsed = (\<lambda>k. 0),
      w_build = BuildClosed (Some 0) [] []\<rparr>"

definition world_without :: "CLIType \<Rightarrow> jsstring \<Rightarrow> world" where
  "world_without missing out =
     \<lparr>w_available = (\<lambda>c. c \<noteq> missing),
      w_settle = (\<lambda>n a p. if agent_cliType a = missing
                             then Inr (fail_with [] (js ''command not found''))
                             else Inr (succeed_with out)),
      w_round_elapsed = (\<lambda>n. 0), w_fix_elapsed = (\<lambda>k. 0),
      w_build = BuildClosed (Some 0) [] []\<rparr>"

definition plain_prompts :: prompts where
  "plain_prompts =
     \<lparr>getModeratorOpeningPrompt = (\<lambda>topic. js ''open''),
      getModeratorEvaluationPrompt = (\<lambda>topic n ms. js ''evaluate''),
      getModeratorFinalVerdictPrompt = (\<lambda>topic ms. js ''conclude''),
      getChallengerPrompt = (\<lambda>topic n ms. js ''challenge''),
      getDefenderPrompt = (\<lambda>topic n ms. js ''defend''),
      getCodeReviewChallengerPrompt = (\<lambda>path focus. js ''analyse''),
      getCodeReviewDefenderPrompt = (\<lambda>path issues. Inr (js ''respond'')),
      getCodeReviewVerdictPrompt = (\<lambda>path issues defense. Inr (js ''judge'')),
      getFixTaskPrompt = (\<lambda>issue path. Inr (js ''fix''))\<rparr>"

definition debate_X :: DebateConfig where
  "debate_X =
     \<lparr>dc_topic = js ''X'', dc_rounds = 1,
      dc_moderator = \<lparr>cfg_cliType = GEMINI, cfg_role = MODERATOR, cfg_timeout = None\<rparr>,
      dc_challenger = \<lparr>cfg_cliType = CLAUDE, cfg_role = CHALLENGER, cfg_timeout = None\<rparr>,
      dc_defender = \<lparr>cfg_cliType = CODEX, cfg_role = DEFENDER, cfg_timeout = None\<rparr>,
      dc_streaming = True\<rparr>"

definition review_src :: CodeReviewConfig where
  "review_src =
     \<lparr>cr_path = js ''./src'', cr_focus = None, cr_buildCommand = None, cr_autoFix = False,
      cr_challenger = \<lparr>cfg_cliType = CLAUDE, cfg_role = CHALLENGER, cfg_timeout = None\<rparr>,
      cr_defender = \<lparr>cfg_cliType = CODEX, cfg_role = DEFENDER, cfg_timeout = None\<rparr>,
      cr_moderator = \<lparr>cfg_cliType = GEMINI, cfg_role = MODERATOR, cfg_timeout = None\<rparr>,
      cr_fixers = None, cr_streaming = True\<rparr>"

definition review_orchestrator :: CodeReviewOrchestrator where
  "review_orchestrator =
     \<lparr>c_config = review_src,
      c_challenger = ClaudeAgent CHALLENGER None,
      c_defender = CodexAgent DEFENDER None,
      c_moderator = GeminiAgent MODERATOR None,
      c_fixers = [(str (CLIType_value CLAUDE), ClaudeAgent DEFENDER None),
                  (str (CLIType_value CODEX), CodexAgent DEFENDER None),
                  (str (CLIType_value GEMINI), GeminiAgent DEFENDER None)]\<rparr>"

text \<open>
  Notions for the fix phase: the key under which an issue is grouped; the prompt of a
  planned fix, or the message of the error its builder throws; how many of the first
  \<open>k\<close> planned fixes reach their invocation; the three ways a planned fix can end; the
  outcome of a planned fix when its invocation would be number \<open>n\<close> of the run; the
  task a planned fix ends as, given its outcome; how many of the first \<open>k\<close> planned
  fixes see their invocation resolved; the task as it is after the start; and groups that
  hold, each under its key, a non-empty list of issues with that key.
\<close>

definition fix_key :: "CodeIssue \<Rightarrow> jsval" where
  "fix_key issue = or_else (assignedTo issue) (str (CLIType_value CLAUDE))"

definition fix_prompt :: "prompts \<Rightarrow> jsstring \<Rightarrow> agent \<times> jsval \<times> CodeIssue \<Rightarrow> jsstring + jsstring" where
  "fix_prompt P path call = (case call of (fixer, cli, issue) \<Rightarrow> getFixTaskPrompt P issue path)"

definition invoked_before :: "prompts \<Rightarrow> jsstring \<Rightarrow> (agent \<times> jsval \<times> CodeIssue) list \<Rightarrow> nat \<Rightarrow> nat" where
  "invoked_before P path calls k =
     length (filter (\<lambda>call. \<not> isl (fix_prompt P path call)) (take k calls))"

datatype fix_outcome =
    PromptThrew jsstring
  | InvocationRejected jsstring
  | InvocationResolved AgentExecuteResult

definition fix_outcome_of :: "world \<Rightarrow> prompts \<Rightarrow> jsstring \<Rightarrow> nat \<Rightarrow> agent \<times> jsval \<times> CodeIssue \<Rightarrow>
    fix_outcome" where
  "fix_outcome_of w P path n call =
     (case fix_prompt P path call of
        Inl e \<Rightarrow> PromptThrew e
      | Inr prompt \<Rightarrow>
          (case w_settle w n (fst call) prompt of
             Inl e \<Rightarrow> InvocationRejected e
           | Inr result \<Rightarrow> InvocationResolved result))"

definition planned_outcome :: "world \<Rightarrow> prompts \<Rightarrow> jsstring \<Rightarrow> nat \<Rightarrow>
    (agent \<times> jsval \<times> CodeIssue) list \<Rightarrow> nat \<Rightarrow> fix_outcome" where
  "planned_outcome w P path n calls k =
     fix_outcome_of w P path (n + invoked_before P path calls k) (calls ! k)"

fun final_task :: "world \<Rightarrow> nat \<Rightarrow> agent \<times> jsval \<times> CodeIssue \<Rightarrow> fix_outcome \<Rightarrow> FixTask" where
  "final_task w k call (PromptThrew e) =
     \<lparr>ft_issue = snd (snd call), ft_assignedCLI = fst (snd call), ft_status = Task_failed,
      ft_result = Some e, ft_duration = Some (w_fix_elapsed w k)\<rparr>"
| "final_task w k call (InvocationRejected e) =
     \<lparr>ft_issue = snd (snd call), ft_assignedCLI = fst (snd call), ft_status = Task_failed,
      ft_result = Some e, ft_duration = Some (w_fix_elapsed w k)\<rparr>"
| "final_task w k call (InvocationResolved result) =
     \<lparr>ft_issue = snd (snd call), ft_assignedCLI = fst (snd call),
      ft_status = (if res_success result then Task_completed else Task_failed),
      ft_result = Some (res_output result), ft_duration = Some (w_fix_elapsed w k)\<rparr>"

fun is_resolved :: "fix_outcome \<Rightarrow> bool" where
  "is_resolved (InvocationResolved result) = True"
| "is_resolved oc = False"

definition resolved_before :: "world \<Rightarrow> prompts \<Rightarrow> jsstring \<Rightarrow> nat \<Rightarrow>
    (agent \<times> jsval \<times> CodeIssue) list \<Rightarrow> nat \<Rightarrow> nat" where
  "resolved_before w P path n calls k =
     length (filter (\<lambda>j. is_resolved (planned_outcome w P path n calls j)) [0..<k])"

fun started_task :: "world \<Rightarrow> nat \<Rightarrow> agent \<times> jsval \<times> CodeIssue \<Rightarrow> fix_outcome \<Rightarrow>
    FixTask \<times> (jsstring + AgentExecuteResult) option" where
  "started_task w k call (PromptThrew e) = (final_task w k call (PromptThrew e), None)"
| "started_task w k call (InvocationRejected e) =
     (\<lparr>ft_issue = snd (snd call), ft_assignedCLI = fst (snd call),
       ft_status = Task_in_progress, ft_result = None, ft_duration = None\<rparr>, Some (Inl e))"
| "started_task w k call (InvocationResolved result) =
     (\<lparr>ft_issue = snd (snd call), ft_assignedCLI = fst (snd call),
       ft_status = Task_in_progress, ft_result = None, ft_duration = None\<rparr>, Some (Inr result))"

text \<open>A pending task whose promise will be resolved.\<close>

definition awaits_result :: "FixTask \<times> (jsstring + AgentExecuteResult) option \<Rightarrow> bool" where
  "awaits_result started \<longleftrightarrow> (case snd started of Some (Inr result) \<Rightarrow> True | _ \<Rightarrow> False)"

definition grouped :: "(jsval \<times> CodeIssue list) list \<Rightarrow> bool" where
  "grouped gs \<longleftrightarrow> (\<forall>(c, is)\<in>set gs. is \<noteq> [] \<and> (\<forall>j\<in>set is. fix_key j = c))"

text \<open>Configurations, orchestrators and issues on which the fix phase is evaluated below.\<close>

definition review_fixing :: CodeReviewConfig where
  "review_fixing = review_src\<lparr>cr_autoFix := True\<rparr>"

definition fixing_orchestrator :: CodeReviewOrchestrator where
  "fixing_orchestrator = review_orchestrator\<lparr>c_config := review_fixing\<rparr>"

definition review_claude_fixes :: CodeReviewConfig where
  "review_claude_fixes =
     review_fixing\<lparr>cr_fixers := Some [\<lparr>cfg_cliType = CLAUDE, cfg_role = DEFENDER, cfg_timeout = None\<rparr>]\<rparr>"

definition claude_only_orchestrator :: CodeReviewOrchestrator where
  "claude_only_orchestrator =
     review_orchestrator\<lparr>c_config := review_claude_fixes,
                          c_fixers := [(str (CLIType_value CLAUDE), ClaudeAgent DEFENDER None)]\<rparr>"

text \<open>
  A world in which \<open>spawn\<close> throws for one backend, so that its invocations are
  rejected; and prompt builders of which the one of the fix task throws on the issue
  with a given id.
\<close>

definition world_rejecting :: "CLIType \<Rightarrow> jsstring \<Rightarrow> world" where
  "world_rejecting broken out =
     \<lparr>w_available = (\<lambda>c. True),
      w_settle = (\<lambda>n a p. if agent_cliType a = broken
                             then Inl (js ''spawn E2BIG'')
                             else Inr (succeed_with out)),
      w_round_elapsed = (\<lambda>n. 0), w_fix_elapsed = (\<lambda>k. 0),
      w_build = BuildClosed (Some 0) [] []\<rparr>"

definition prompts_throwing_on :: "jsstring \<Rightarrow> prompts" where
  "prompts_throwing_on ident =
     plain_prompts\<lparr>getFixTaskPrompt :=
       (\<lambda>issue path. if issue_id issue = ident
                      then Inl (js ''Cannot convert object to primitive value'')
                      else Inr (js ''fix''))\<rparr>"

definition assigned_issue :: "nat \<Rightarrow> CLIType \<Rightarrow> CodeIssue" where
  "assigned_issue index cli =
     \<lparr>issue_id = generated_id index, issue_type = str (IssueType_value BUG),
      severity = str (IssueSeverity_value MEDIUM), description = str [], filePath = Undefined,
      lineNumber = Undefined, suggestedFix = Undefined, assignedTo = str (CLIType_value cli)\<rparr>"

text \<open>An operating system that creates every process it is asked for.\<close>

definition never_refused :: "jsstring \<Rightarrow> jsstring list \<Rightarrow> bool" where
  "never_refused command args = False"

text \<open>Texts on which the parsing layer is evaluated below.\<close>

definition payload_quoting_fence :: jsstring where
  "payload_quoting_fence =
     js ''{\"issues\": [{\"type\": \"bug\", \"severity\": \"high\", \"description\": \"see ``` below\"}]}''"

definition payload_two_issues :: jsstring where
  "payload_two_issues =
     js ''{\"issues\": [{\"type\": \"Security\", \"severity\": \"HIGH\"}, {\"type\": \"bug\", \"severity\": \"low\"}]}''"

definition verdict_assigning :: jsstring where
  "verdict_assigning =
     js ''{\"confirmedIssues\": [{\"issueId\": \"issue-2\", \"confirmed\": true, \"assignTo\": \"Codex\"}, {\"issueId\": \"issue-1\", \"confirmed\": false}]}''"

definition verdict_contradicting :: jsstring where
  "verdict_contradicting =
     js ''{\"confirmedIssues\": [{\"issueId\": \"issue-1\", \"confirmed\": false}, {\"issueId\": \"issue-1\", \"confirmed\": true}]}''"

definition payload_with_ids :: jsstring where
  "payload_with_ids =
     js ''{\"issues\": [{\"id\": \"A\", \"description\": \"first\"}, {\"id\": \"A\", \"description\": \"second\", \"filePath\": \"b.ts\"}]}''"

definition payload_prototype_key :: jsstring where
  "payload_prototype_key =
     js ''{\"issues\": [{\"type\": \"constructor\", \"severity\": \"high\", \"description\": \"x\"}]}''"

section \<open>Theorems about the executor\<close>


lemma run_from_Nil: "run_from st s [] = s" by (simp add: run_from_def)
lemma run_from_Cons: "run_from st s (e # evs) = run_from st (on_event st e s) evs" by (simp add: run_from_def)

lemma run_from_settled:
  "x_resolved s \<Longrightarrow> x_timer s \<noteq> Armed \<Longrightarrow>
   x_resolutions (run_from st s evs) = x_resolutions s \<and> x_sigterms (run_from st s evs) = x_sigterms s
   \<and> x_timer (run_from st s evs) \<noteq> Armed"
proof (induction evs arbitrary: s)
  case Nil then show ?case by (simp add: run_from_Nil)
next
  case (Cons e evs)
  obtain now ev where e: "e = (now, ev)" by (cases e)
  have "x_resolved (on_event st e s) \<and> x_timer (on_event st e s) \<noteq> Armed
      \<and> x_resolutions (on_event st e s) = x_resolutions s \<and> x_sigterms (on_event st e s) = x_sigterms s"
    using Cons.prems by (cases ev) (simp_all add: e)
  then show ?case using Cons.IH [of "on_event st e s"] by (simp add: run_from_Cons)
qed

lemma on_event_settles:
  "\<not> x_resolved s \<Longrightarrow> x_timer s = Armed \<Longrightarrow> settles e \<Longrightarrow>
   \<exists>p r. outcome st (x_output s) (x_errorOutput s) e = Some (p, r)
     \<and> x_resolutions (on_event st e s) = x_resolutions s @ [(p, r)]
     \<and> x_resolved (on_event st e s) \<and> x_timer (on_event st e s) \<noteq> Armed
     \<and> x_sigterms (on_event st e s) = x_sigterms s + (if snd e = TimerFired then 1 else 0)"
proof -
  obtain now ev where e: "e = (now, ev)" by (cases e)
  assume "\<not> x_resolved s" "x_timer s = Armed" "settles e"
  then show ?thesis by (cases ev) (auto simp add: e)
qed

lemma on_event_data:
  "\<not> settles e \<Longrightarrow>
   x_resolved (on_event st e s) = x_resolved s \<and> x_timer (on_event st e s) = x_timer s
   \<and> x_resolutions (on_event st e s) = x_resolutions s \<and> x_sigterms (on_event st e s) = x_sigterms s
   \<and> x_output (on_event st e s) = x_output s @ stdout_of [e]
   \<and> x_errorOutput (on_event st e s) = x_errorOutput s @ stderr_of [e]"
proof -
  obtain now ev where e: "e = (now, ev)" by (cases e)
  assume "\<not> settles e"
  then show ?thesis by (cases ev) (auto simp add: e)
qed

lemma stdout_of_Cons: "stdout_of (e # evs) = stdout_of [e] @ stdout_of evs"
proof -
  obtain now ev where e: "e = (now, ev)" by (cases e)
  show ?thesis by (cases ev) (simp_all add: e)
qed
lemma stderr_of_Cons: "stderr_of (e # evs) = stderr_of [e] @ stderr_of evs"
proof -
  obtain now ev where e: "e = (now, ev)" by (cases e)
  show ?thesis by (cases ev) (simp_all add: e)
qed

lemma run_from_unsettled:
  "\<not> x_resolved s \<Longrightarrow> x_timer s = Armed \<Longrightarrow>
   (case dropWhile (\<lambda>x. \<not> settles x) evs of
      [] \<Rightarrow> x_resolutions (run_from st s evs) = x_resolutions s \<and> x_timer (run_from st s evs) = Armed
            \<and> x_sigterms (run_from st s evs) = x_sigterms s
    | e # post \<Rightarrow>
        (\<exists>p r. outcome st (x_output s @ stdout_of (takeWhile (\<lambda>x. \<not> settles x) evs))
                          (x_errorOutput s @ stderr_of (takeWhile (\<lambda>x. \<not> settles x) evs)) e = Some (p, r)
           \<and> x_resolutions (run_from st s evs) = x_resolutions s @ [(p, r)]
           \<and> x_timer (run_from st s evs) \<noteq> Armed
           \<and> x_sigterms (run_from st s evs) = x_sigterms s + (if snd e = TimerFired then 1 else 0)))"
proof (induction evs arbitrary: s)
  case Nil then show ?case by (simp add: run_from_Nil)
next
  case (Cons e evs)
  show ?case
  proof (cases "settles e")
    case True
    from on_event_settles [OF Cons.prems True, of st]
    obtain p r where o: "outcome st (x_output s) (x_errorOutput s) e = Some (p, r)"
      and r: "x_resolutions (on_event st e s) = x_resolutions s @ [(p, r)]"
      and d: "x_resolved (on_event st e s)" "x_timer (on_event st e s) \<noteq> Armed"
      and k: "x_sigterms (on_event st e s) = x_sigterms s + (if snd e = TimerFired then 1 else 0)"
      by blast
    from run_from_settled [OF d, of st evs] o r k True show ?thesis
      by (simp add: run_from_Cons)
  next
    case False
    note d = on_event_data [OF False, of st s]
    have p: "\<not> x_resolved (on_event st e s)" "x_timer (on_event st e s) = Armed"
      using d Cons.prems by simp_all
    have so: "stdout_of (takeWhile (\<lambda>x. \<not> settles x) (e # evs)) = stdout_of [e] @ stdout_of (takeWhile (\<lambda>x. \<not> settles x) evs)"
      and se: "stderr_of (takeWhile (\<lambda>x. \<not> settles x) (e # evs)) = stderr_of [e] @ stderr_of (takeWhile (\<lambda>x. \<not> settles x) evs)"
      using False stdout_of_Cons [of e "takeWhile (\<lambda>x. \<not> settles x) evs"]
        stderr_of_Cons [of e "takeWhile (\<lambda>x. \<not> settles x) evs"] by simp_all
    have dw: "dropWhile (\<lambda>x. \<not> settles x) (e # evs) = dropWhile (\<lambda>x. \<not> settles x) evs"
      using False by simp
    note IH = Cons.IH [OF p]
    show ?thesis
    proof (cases "dropWhile (\<lambda>x. \<not> settles x) evs")
      case Nil
      from IH d show ?thesis
        unfolding dw run_from_Cons Nil by simp
    next
      case (Cons e' post)
      from IH d show ?thesis
        unfolding dw run_from_Cons so se Cons by simp
    qed
  qed
qed


lemma execute_run_from: "execute_run st evs = run_from st execute_init evs"
  by (simp add: execute_run_def run_from_def)

text \<open>
  Claim C1, as amended. For every agent, prompt, timeout and order in which the stdout,
  stderr, close, error and timer callbacks run: when \<open>spawn\<close> returns the child
  process, the promise of \<open>execute\<close> is never rejected and \<open>resolve\<close> is called at
  most once. The promise is pending exactly as long as the timer is armed and no settling
  callback has run; from the first settling callback on, \<open>resolve\<close> has been called
  exactly once, with the outcome of that callback: success on exit code zero (the
  accumulated output with the white space at its ends removed, duration), failure on any
  other exit (standard error text, or else the exit code, as the error), failure by
  timeout (one SIGTERM sent, the output accumulated so far kept as it is, the sentinel
  error), or failure to launch (the message of the error). Later callbacks change
  nothing.
\<close>

theorem execute_resolves_exactly_once:
  "\<not> spawn_throws refused (getCommand a) (getArgs a prompt) \<longrightarrow>
   execute refused a prompt st evs \<noteq> Rejected \<and>
   length (x_resolutions (execute_run st evs)) \<le> 1 \<and>
   (case dropWhile (\<lambda>x. \<not> settles x) evs of
      [] \<Rightarrow> execute refused a prompt st evs = Pending \<and> x_timer (execute_run st evs) = Armed
    | e # post \<Rightarrow>
        (\<exists>p r. outcome st (stdout_of (takeWhile (\<lambda>x. \<not> settles x) evs))
                          (stderr_of (takeWhile (\<lambda>x. \<not> settles x) evs)) e = Some (p, r)
           \<and> x_resolutions (execute_run st evs) = [(p, r)]
           \<and> execute refused a prompt st evs = Fulfilled r
           \<and> x_timer (execute_run st evs) \<noteq> Armed
           \<and> x_sigterms (execute_run st evs) = (if snd e = TimerFired then 1 else 0)))"
proof
  assume n: "\<not> spawn_throws refused (getCommand a) (getArgs a prompt)"
  have i: "\<not> x_resolved execute_init" "x_timer execute_init = Armed"
    by (simp_all add: execute_init_def)
  have z: "x_resolutions execute_init = []" "x_sigterms execute_init = 0"
    "x_output execute_init = []" "x_errorOutput execute_init = []"
    by (simp_all add: execute_init_def)
  note u = run_from_unsettled [OF i, where evs=evs and st=st, unfolded z append_Nil add_0, folded execute_run_from]
  have ex: "execute refused a prompt st evs =
      (case x_resolutions (execute_run st evs) of [] \<Rightarrow> Pending | (p, r) # rest \<Rightarrow> Fulfilled r)"
    using n by (simp add: execute_def execute_promise_def)
  show "execute refused a prompt st evs \<noteq> Rejected \<and>
   length (x_resolutions (execute_run st evs)) \<le> 1 \<and>
   (case dropWhile (\<lambda>x. \<not> settles x) evs of
      [] \<Rightarrow> execute refused a prompt st evs = Pending \<and> x_timer (execute_run st evs) = Armed
    | e # post \<Rightarrow>
        (\<exists>p r. outcome st (stdout_of (takeWhile (\<lambda>x. \<not> settles x) evs))
                          (stderr_of (takeWhile (\<lambda>x. \<not> settles x) evs)) e = Some (p, r)
           \<and> x_resolutions (execute_run st evs) = [(p, r)]
           \<and> execute refused a prompt st evs = Fulfilled r
           \<and> x_timer (execute_run st evs) \<noteq> Armed
           \<and> x_sigterms (execute_run st evs) = (if snd e = TimerFired then 1 else 0)))"
  proof (cases "dropWhile (\<lambda>x. \<not> settles x) evs")
    case Nil
    from u show ?thesis unfolding Nil ex by simp
  next
    case (Cons e post)
    from u show ?thesis unfolding Cons ex by auto
  qed
qed

lemmas execute_defs = execute_def execute_promise_def spawn_throws_def has_nul_def never_refused_def
  execute_run_def execute_init_def ClaudeAgent_def default_timeout_def quoted_def js_def
  trim_def trimStart_def trimEnd_def is_ws_def

text \<open>
  A run of C1: the Claude agent is asked \<open>hi\<close>, the child writes a chunk, the timer
  fires, the killed child closes, and a stray timer event follows. The promise holds the
  timeout failure with the partial output; nothing resolves it a second time.
\<close>

theorem execute_resolves_exactly_once_witness:
  "\<not> spawn_throws never_refused (getCommand (ClaudeAgent CHALLENGER None))
       (getArgs (ClaudeAgent CHALLENGER None) (js ''hi'')) \<and>
   x_resolutions (execute_run 0
      [(5, StdoutData (js ''par'')), (7, StderrData (js ''warn'')), (1000, TimerFired),
       (1003, Close None), (1004, TimerFired)]) =
     [(ByTimeout, \<lparr>res_success = False, res_output = js ''par'',
                    res_error = Some timeout_error, res_duration = 1000\<rparr>)] \<and>
   execute never_refused (ClaudeAgent CHALLENGER None) (js ''hi'') 0
      [(5, StdoutData (js ''par'')), (7, StderrData (js ''warn'')), (1000, TimerFired),
       (1003, Close None), (1004, TimerFired)] =
     Fulfilled \<lparr>res_success = False, res_output = js ''par'',
                 res_error = Some timeout_error, res_duration = 1000\<rparr>"
proof -
  have h: "\<not> spawn_throws never_refused (getCommand (ClaudeAgent CHALLENGER None))
       (getArgs (ClaudeAgent CHALLENGER None) (js ''hi''))"
    by (simp add: execute_defs)
  from execute_resolves_exactly_once
    [of never_refused "ClaudeAgent CHALLENGER None" "js ''hi''" 0
      "[(5, StdoutData (js ''par'')), (7, StderrData (js ''warn'')), (1000, TimerFired),
       (1003, Close None), (1004, TimerFired)]"] h
  show ?thesis by simp
qed

text \<open>
  C1 as first stated fails twice. A prompt that holds the code unit 0 makes \<open>spawn\<close>
  throw inside the promise executor, so the promise is rejected, whatever the child would
  have done. And on success the output of the result is not the accumulated output: the
  child wrote \<open>ok\<close> between a space and a line feed, the result holds \<open>ok\<close>.
\<close>

theorem execute_resolves_exactly_once_counterexample:
  "execute never_refused (ClaudeAgent CHALLENGER None) [0x68, 0x00, 0x69] 0 [(5, Close (Some 0))]
     = Rejected \<and>
   stdout_of [(3, StdoutData [0x20, 0x6F, 0x6B, 0x0A]), (5, Close (Some 0))] = [0x20, 0x6F, 0x6B, 0x0A] \<and>
   execute never_refused (ClaudeAgent CHALLENGER None) (js ''hi'') 0
      [(3, StdoutData [0x20, 0x6F, 0x6B, 0x0A]), (5, Close (Some 0))]
     = Fulfilled \<lparr>res_success = True, res_output = [0x6F, 0x6B], res_error = None,
                   res_duration = 5\<rparr>"
  by (simp add: execute_defs)

section \<open>Theorems about the generated issue ids\<close>

lemma text_nat_snoc: "text_nat (s @ [d]) = 10 * text_nat s + (d - 0x30)"
  by (simp add: text_nat_def)

lemma text_nat_nat_text: "text_nat (nat_text n) = n"
proof (induction n rule: nat_text.induct)
  case (1 n)
  show ?case
  proof (cases "n < 10")
    case True
    then show ?thesis by (subst nat_text.simps) (simp add: text_nat_def)
  next
    case False
    with 1 have "text_nat (nat_text (n div 10)) = n div 10" by simp
    with False show ?thesis
      by (subst nat_text.simps) (simp add: text_nat_snoc)
  qed
qed

lemma nat_text_inj: "nat_text m = nat_text n \<Longrightarrow> m = n"
  by (metis text_nat_nat_text)

lemma generated_id_inj: "generated_id i = generated_id j \<Longrightarrow> i = j"
  by (auto simp: generated_id_def dest: nat_text_inj)

lemma make_issue_id: "make_issue index item = Some i \<Longrightarrow> issue_id i = generated_id index"
  unfolding make_issue_def generated_id_def
  by (auto simp: bind_eq_Some_conv)

lemma map_issues_ids:
  "map_issues k items = Some is \<Longrightarrow>
   length is = length items \<and> map issue_id is = map (\<lambda>j. generated_id (k + j)) [0..<length items]"
proof (induction items arbitrary: k "is")
  case Nil then show ?case by simp
next
  case (Cons item items)
  from Cons.prems obtain i rest where i: "make_issue k item = Some i"
    and r: "map_issues (k + 1) items = Some rest" and e: "is = i # rest"
    by (auto split: Option.bind_splits)
  have u: "[0..<length (item # items)] = 0 # map Suc [0..<length items]"
    by (simp add: upt_conv_Cons map_Suc_upt del: upt_Suc)
  from Cons.IH [OF r] make_issue_id [OF i] e show ?case
    unfolding u by (simp add: comp_def)
qed

lemma parseIssues_ids:
  "map issue_id (parseIssuesFromOutput output) =
   map generated_id [0..<length (parseIssuesFromOutput output)]"
proof (cases "parseIssues_try output")
  case None then show ?thesis by (simp add: parseIssuesFromOutput_def)
next
  case (Some r)
  show ?thesis
  proof (cases r)
    case None with Some show ?thesis by (simp add: parseIssuesFromOutput_def)
  next
    case (Some "is")
    with \<open>parseIssues_try output = Some r\<close> obtain items where "map_issues 0 items = Some is"
      by (auto simp: parseIssues_try_def split: Option.bind_splits jsval.splits json.splits)
    from map_issues_ids [OF this] Some \<open>parseIssues_try output = Some r\<close> show ?thesis
      by (simp add: parseIssuesFromOutput_def)
  qed
qed

lemma distinct_generated: "distinct (map generated_id [k..<n])"
  by (simp add: distinct_map inj_on_def) (metis generated_id_inj)

lemma assign_loop_subseq:
  "assign_loop entries issues = Some r \<Longrightarrow> subseq (map issue_id r) (map issue_id issues)"
proof (induction issues arbitrary: r)
  case Nil then show ?case by simp
next
  case (Cons issue issues)
  from Cons.prems obtain kept more where k: "r = kept @ more"
    and m: "assign_loop entries issues = Some more"
    and kk: "kept = [] \<or> (\<exists>cli. kept = [issue\<lparr>assignedTo := cli\<rparr>])"
    by (auto split: Option.bind_splits option.splits if_splits)
  from Cons.IH [OF m] kk show ?case unfolding k by auto
qed

lemma parseVerdict_subseq:
  "subseq (map issue_id (parseVerdictAndAssign verdict issues)) (map issue_id issues)"
proof (cases "parseVerdict_try verdict issues")
  case None then show ?thesis by (simp add: parseVerdictAndAssign_def)
next
  case (Some r)
  show ?thesis
  proof (cases r)
    case None with Some show ?thesis by (simp add: parseVerdictAndAssign_def)
  next
    case (Some "is")
    with \<open>parseVerdict_try verdict issues = Some r\<close> obtain entries where "assign_loop entries issues = Some is"
      by (auto simp: parseVerdict_try_def split: Option.bind_splits jsval.splits json.splits)
    from assign_loop_subseq [OF this] Some \<open>parseVerdict_try verdict issues = Some r\<close> show ?thesis
      by (simp add: parseVerdictAndAssign_def)
  qed
qed

lemma distinct_filter_le_1:
  "distinct (map f xs) \<Longrightarrow> length (filter (\<lambda>x. v = f x) xs) \<le> 1"
  by (induction xs) (auto simp: filter_empty_conv)

section \<open>Theorems about the fenced block\<close>

lemma fence_close_eq: "fence_close = [0x60, 0x60, 0x60]"
  by (simp add: fence_close_def js_def)

lemma fence_open_eq: "fence_open = [0x60, 0x60, 0x60, 0x6A, 0x73, 0x6F, 0x6E]"
  by (simp add: fence_open_def js_def)

lemma not_ws_backtick: "\<not> is_ws 0x60" by (simp add: is_ws_def)
lemma not_ws_brace: "\<not> is_ws 0x7D" "\<not> is_ws 0x7B" by (simp_all add: is_ws_def)

lemma closes_here_ws:
  "\<forall>c\<in>set ws. is_ws c \<Longrightarrow> closes_here (ws @ fence_close @ post)"
proof -
  assume "\<forall>c\<in>set ws. is_ws c"
  then have "dropWhile is_ws (ws @ fence_close @ post) = fence_close @ post"
    by (simp add: dropWhile_append fence_close_eq not_ws_backtick)
  then show ?thesis by (simp add: closes_here_def)
qed

lemma not_closes_here:
  "y \<noteq> [] \<Longrightarrow> last y = 0x7D \<Longrightarrow> \<not> sublist fence_close y \<Longrightarrow> \<not> closes_here (y @ r)"
proof (induction y)
  case Nil then show ?case by simp
next
  case (Cons c y)
  show ?case
  proof (cases "is_ws c")
    case True
    with Cons.prems have ne: "y \<noteq> []" using not_ws_brace by auto
    with Cons.prems have l: "last y = 0x7D" by simp
    have "\<not> sublist fence_close y" using Cons.prems(3) by (meson sublist_Cons_right)
    from Cons.IH [OF ne l this] True show ?thesis by (simp add: closes_here_def)
  next
    case False
    have "\<not> prefix fence_close (c # y @ r)"
    proof
      assume p: "prefix fence_close (c # y @ r)"
      show False
      proof (cases y)
        case Nil with Cons.prems p show False by (simp add: fence_close_eq)
      next
        case (Cons d y1)
        note y = this
        show False
        proof (cases y1)
          case Nil with y Cons.prems p show False by (simp add: fence_close_eq)
        next
          case (Cons e y2)
          with y p have "c # y = fence_close @ y2" by (simp add: fence_close_eq)
          then have "sublist fence_close (c # y)" by (metis append_Nil sublist_appendI)
          with Cons.prems show False by simp
        qed
      qed
    qed
    with False show ?thesis by (simp add: closes_here_def)
  qed
qed

lemma lazy_group_closes: "closes_here r \<Longrightarrow> lazy_group acc r = Some (rev acc)"
  by (cases r) simp_all

lemma lazy_group_skip:
  "\<forall>k<length xs. \<not> closes_here (drop k xs @ r) \<Longrightarrow> lazy_group acc (xs @ r) = lazy_group (rev xs @ acc) r"
proof (induction xs arbitrary: acc)
  case Nil then show ?case by simp
next
  case (Cons x xs)
  from Cons.prems have 0: "\<not> closes_here ((x # xs) @ r)" by (metis drop0 length_greater_0_conv list.distinct(1))
  have "\<forall>k<length xs. \<not> closes_here (drop k xs @ r)"
  proof (intro allI impI)
    fix k assume "k < length xs"
    then have "Suc k < length (x # xs)" by simp
    with Cons.prems have "\<not> closes_here (drop (Suc k) (x # xs) @ r)" by blast
    then show "\<not> closes_here (drop k xs @ r)" by simp
  qed
  from Cons.IH [OF this, of "x # acc"] 0 show ?case by simp
qed

lemma lazy_group_payload:
  assumes "payload \<noteq> []" "last payload = 0x7D" "\<not> sublist fence_close payload"
    and "\<forall>c\<in>set ws2. is_ws c"
  shows "lazy_group [] (payload @ ws2 @ fence_close @ post) = Some payload"
proof -
  have "\<forall>k<length payload. \<not> closes_here (drop k payload @ ws2 @ fence_close @ post)"
  proof (intro allI impI)
    fix k assume k: "k < length payload"
    then have ne: "drop k payload \<noteq> []" by simp
    then have l: "last (drop k payload) = 0x7D" using assms(2) k by simp
    have "\<not> sublist fence_close (drop k payload)"
      using assms(3) by (metis append_take_drop_id sublist_append)
    from not_closes_here [OF ne l this] show "\<not> closes_here (drop k payload @ ws2 @ fence_close @ post)" .
  qed
  from lazy_group_skip [OF this, of "[]"] lazy_group_closes [OF closes_here_ws [OF assms(4)]]
  show ?thesis by simp
qed

lemma after_open_ws:
  "\<forall>c\<in>set ws. is_ws c \<Longrightarrow> after_open s = Some g \<Longrightarrow> after_open (ws @ s) = Some g"
  by (induction ws) simp_all

lemma after_open_payload:
  assumes "payload \<noteq> []" "hd payload = 0x7B" "last payload = 0x7D" "\<not> sublist fence_close payload"
    and "\<forall>c\<in>set ws1. is_ws c" "\<forall>c\<in>set ws2. is_ws c"
  shows "after_open (ws1 @ payload @ ws2 @ fence_close @ post) = Some payload"
proof -
  obtain c cs where p: "payload = c # cs" using assms(1) by (cases payload) auto
  with assms(2) have "\<not> is_ws c" using not_ws_brace by simp
  then have "after_open (payload @ ws2 @ fence_close @ post) = lazy_group [] (payload @ ws2 @ fence_close @ post)"
    by (simp add: p)
  with lazy_group_payload [OF assms(1,3,4,6)]
  have "after_open (payload @ ws2 @ fence_close @ post) = Some payload" by simp
  from after_open_ws [OF assms(5) this] show ?thesis .
qed

lemma match_here_open: "match_here (fence_open @ r) = after_open r"
  by (simp add: match_here_def)

lemma fence_match_skip:
  "\<forall>i<length pre. \<not> prefix fence_open (drop i (pre @ s)) \<Longrightarrow> fence_match (pre @ s) = fence_match s"
proof (induction pre)
  case Nil then show ?case by simp
next
  case (Cons c pre)
  from Cons.prems have "\<not> prefix fence_open ((c # pre) @ s)" by (metis drop0 length_greater_0_conv list.distinct(1))
  then have m: "match_here (c # pre @ s) = None" by (simp add: match_here_def)
  have "\<forall>i<length pre. \<not> prefix fence_open (drop i (pre @ s))"
  proof (intro allI impI)
    fix i assume "i < length pre"
    then have "Suc i < length (c # pre)" by simp
    with Cons.prems have "\<not> prefix fence_open (drop (Suc i) ((c # pre) @ s))" by blast
    then show "\<not> prefix fence_open (drop i (pre @ s))" by simp
  qed
  from Cons.IH [OF this] m show ?case by simp
qed

lemma no_straddle:
  assumes "\<not> sublist fence_open pre" "i < length pre"
  shows "\<not> prefix fence_open (drop i (pre @ fence_open @ r))"
proof
  assume p: "prefix fence_open (drop i (pre @ fence_open @ r))"
  define d where "d = drop i pre"
  have dne: "d \<noteq> []" using assms(2) by (simp add: d_def)
  have ns: "\<not> sublist fence_open d" using assms(1) unfolding d_def
    by (metis append_take_drop_id sublist_append)
  from p assms(2) have p': "prefix fence_open (d @ fence_open @ r)" by (simp add: d_def)
  show False
  proof (cases "7 \<le> length d")
    case True
    have "prefix d (d @ fence_open @ r)" by simp
    with p' True have "prefix fence_open d"
      by (intro prefix_length_prefix [of fence_open "d @ fence_open @ r" d]) (simp_all add: fence_open_eq)
    then show False using ns by (auto simp: prefix_def)
  next
    case False
    then have "length d < 7" by simp
    then consider "length d = 0" | "length d = 1" | "length d = 2" | "length d = 3"
      | "length d = 4" | "length d = 5" | "length d = 6" by linarith
    then show False
    proof cases
      case 1 with dne show False by simp
    next
      case 2 then obtain a where "d = [a]" by (auto simp: length_Suc_conv numeral_eq_Suc)
      with p' show False by (simp add: fence_open_eq)
    next
      case 3 then obtain a b where "d = [a, b]" by (auto simp: length_Suc_conv numeral_eq_Suc)
      with p' show False by (simp add: fence_open_eq)
    next
      case 4 then obtain a b c where "d = [a, b, c]" by (auto simp: length_Suc_conv numeral_eq_Suc)
      with p' show False by (simp add: fence_open_eq)
    next
      case 5 then obtain a b c e where "d = [a, b, c, e]" by (auto simp: length_Suc_conv numeral_eq_Suc)
      with p' show False by (simp add: fence_open_eq)
    next
      case 6 then obtain a b c e f where "d = [a, b, c, e, f]" by (auto simp: length_Suc_conv numeral_eq_Suc)
      with p' show False by (simp add: fence_open_eq)
    next
      case 7 then obtain a b c e f g where "d = [a, b, c, e, f, g]" by (auto simp: length_Suc_conv numeral_eq_Suc)
      with p' show False by (simp add: fence_open_eq)
    qed
  qed
qed

lemma fence_match_payload:
  assumes "\<not> sublist fence_open pre"
    and "payload \<noteq> []" "hd payload = 0x7B" "last payload = 0x7D" "\<not> sublist fence_close payload"
    and "\<forall>c\<in>set ws1. is_ws c" "\<forall>c\<in>set ws2. is_ws c"
  shows "fence_match (pre @ fence_open @ ws1 @ payload @ ws2 @ fence_close @ post) = Some payload"
proof -
  let ?r = "ws1 @ payload @ ws2 @ fence_close @ post"
  have "fence_match (pre @ fence_open @ ?r) = fence_match (fence_open @ ?r)"
    using no_straddle [OF assms(1)] by (intro fence_match_skip) blast
  moreover have "fence_match (fence_open @ ?r) = Some payload"
    using after_open_payload [OF assms(2-7), of post] match_here_open [of ?r]
    by (simp add: fence_open_eq)
  ultimately show ?thesis by simp
qed


section \<open>Theorems about the parsed issues\<close>

lemma map_of_rev_Json:
  "map_of (rev (map (\<lambda>(n, v). (n, Json v)) ms)) k = map_option Json (map_of (rev ms) k)"
proof -
  have "map_of (map (\<lambda>(n, v). (n, Json v)) xs) k = map_option Json (map_of xs k)" for xs
    by (induction xs) auto
  from this [of "rev ms"] show ?thesis by (simp add: rev_map)
qed

lemma get_prop_own:
  "map_of (rev ms) k = Some v \<Longrightarrow> get_prop (JObj ms) k = Some (Json v)"
  by (simp add: object_get_def map_of_rev_Json)

lemma parseIssueType_named:
  "named_IssueType s = Some t \<Longrightarrow> parseIssueType (Json (JStr s)) = Some (str (IssueType_value t))"
proof -
  assume "named_IssueType s = Some t"
  then have l: "toLowerCase s = IssueType_value t"
    by (auto simp: named_IssueType_def split: if_splits)
  have "or_else (object_get typeMap (IssueType_value t)) (str (IssueType_value BUG)) = str (IssueType_value t)"
    by (cases t) (simp_all add: object_get_def typeMap_def or_else_def str_def js_def)
  with l show ?thesis by (simp add: parseIssueType_def)
qed

lemma parseSeverity_named:
  "named_IssueSeverity s = Some t \<Longrightarrow> parseSeverity (Json (JStr s)) = Some (str (IssueSeverity_value t))"
proof -
  assume "named_IssueSeverity s = Some t"
  then have l: "toLowerCase s = IssueSeverity_value t"
    by (auto simp: named_IssueSeverity_def split: if_splits)
  have "or_else (object_get severityMap (IssueSeverity_value t)) (str (IssueSeverity_value MEDIUM)) = str (IssueSeverity_value t)"
    by (cases t) (simp_all add: object_get_def severityMap_def or_else_def str_def js_def)
  with l show ?thesis by (simp add: parseSeverity_def)
qed

lemma get_prop_object: "\<exists>v. get_prop (JObj ms) k = Some v"
  by simp

lemma make_issue_wellformed:
  assumes "payload_type item = Some t" "payload_severity item = Some sv"
  shows "\<exists>i. make_issue k item = Some i \<and> issue_type i = str (IssueType_value t)
           \<and> severity i = str (IssueSeverity_value sv)"
proof -
  from assms(1) obtain ms where item: "item = JObj ms" by (cases item) auto
  from assms(1) item obtain s where s: "map_of (rev ms) (js ''type'') = Some (JStr s)" "named_IssueType s = Some t"
    by (auto split: option.splits json.splits)
  from assms(2) item obtain s' where s': "map_of (rev ms) (js ''severity'') = Some (JStr s')" "named_IssueSeverity s' = Some sv"
    by (auto split: option.splits json.splits)
  obtain d where d: "get_prop (JObj ms) (js ''description'') = Some d" by simp
  obtain fp where fp: "get_prop (JObj ms) (js ''filePath'') = Some fp" by simp
  obtain ln where ln: "get_prop (JObj ms) (js ''lineNumber'') = Some ln" by simp
  obtain sf where sf: "get_prop (JObj ms) (js ''suggestedFix'') = Some sf" by simp
  show ?thesis
    unfolding make_issue_def item
    using get_prop_own [OF s(1)] get_prop_own [OF s'(1)] parseIssueType_named [OF s(2)] parseSeverity_named [OF s'(2)]
      d fp ln sf
    by (simp del: get_prop.simps)
qed


lemma map_issues_wellformed:
  "\<forall>item\<in>set items. payload_type item \<noteq> None \<and> payload_severity item \<noteq> None \<Longrightarrow>
   \<exists>is. map_issues k items = Some is
     \<and> map issue_type is = map (\<lambda>item. str (IssueType_value (the (payload_type item)))) items
     \<and> map severity is = map (\<lambda>item. str (IssueSeverity_value (the (payload_severity item)))) items"
proof (induction items arbitrary: k)
  case Nil then show ?case by simp
next
  case (Cons item items)
  from Cons.prems obtain t sv where t: "payload_type item = Some t" and sv: "payload_severity item = Some sv"
    by auto
  from make_issue_wellformed [OF t sv, of k] obtain i where i: "make_issue k item = Some i"
    "issue_type i = str (IssueType_value t)" "severity i = str (IssueSeverity_value sv)" by blast
  from Cons.prems have "\<forall>item\<in>set items. payload_type item \<noteq> None \<and> payload_severity item \<noteq> None" by simp
  from Cons.IH [OF this, of "k + 1"] obtain rest where r: "map_issues (k + 1) items = Some rest"
     "map issue_type rest = map (\<lambda>item. str (IssueType_value (the (payload_type item)))) items"
     "map severity rest = map (\<lambda>item. str (IssueSeverity_value (the (payload_severity item)))) items" by blast
  from i r t sv show ?case by simp
qed

lemma parseIssues_no_json:
  "JSON_parse (extract_json text) = None \<Longrightarrow> parseIssuesFromOutput text = []"
  by (simp add: parseIssuesFromOutput_def parseIssues_try_def)

lemma parseIssues_decoded:
  assumes "JSON_parse (extract_json text) = Some (JObj ms)"
    and "map_of (rev ms) (js ''issues'') = Some (JArr items)"
    and "\<forall>item\<in>set items. payload_type item \<noteq> None \<and> payload_severity item \<noteq> None"
  shows "length (parseIssuesFromOutput text) = length items
     \<and> map issue_type (parseIssuesFromOutput text) = map (\<lambda>item. str (IssueType_value (the (payload_type item)))) items
     \<and> map severity (parseIssuesFromOutput text) = map (\<lambda>item. str (IssueSeverity_value (the (payload_severity item)))) items"
proof -
  from map_issues_wellformed [OF assms(3), of 0] obtain "is" where r: "map_issues 0 items = Some is"
     "map issue_type is = map (\<lambda>item. str (IssueType_value (the (payload_type item)))) items"
     "map severity is = map (\<lambda>item. str (IssueSeverity_value (the (payload_severity item)))) items" by blast
  have "parseIssuesFromOutput text = is"
    using assms(1) get_prop_own [OF assms(2)] r(1)
    by (simp add: parseIssuesFromOutput_def parseIssues_try_def del: get_prop.simps)
  with r show ?thesis by (metis length_map)
qed


text \<open>
  Claim C3, as amended. A text that holds, after its first \<open>```json\<close>, white space,
  a payload \<open>{...}\<close> free of three consecutive backticks, white space and the closing
  fence, where the payload decodes to an object whose \<open>issues\<close> is an array of items
  that each name a type and a severity of the enumerations: the parsed list has the length
  of that array, and its types and severities are those the items name, in order. And a
  text with no fenced block that does not decode as JSON parses to the empty list; the
  function is total, no exception leaves it.
\<close>

theorem parseIssues_round_trip:
  "(\<not> sublist fence_open pre \<and> (\<forall>c\<in>set ws1. is_ws c) \<and> (\<forall>c\<in>set ws2. is_ws c) \<and>
    payload \<noteq> [] \<and> hd payload = 0x7B \<and> last payload = 0x7D \<and> \<not> sublist fence_close payload \<and>
    JSON_parse payload = Some (JObj ms) \<and> map_of (rev ms) (js ''issues'') = Some (JArr items) \<and>
    (\<forall>item\<in>set items. payload_type item \<noteq> None \<and> payload_severity item \<noteq> None)
    \<longrightarrow> length (parseIssuesFromOutput (pre @ fence_open @ ws1 @ payload @ ws2 @ fence_close @ post))
          = length items \<and>
        map issue_type (parseIssuesFromOutput (pre @ fence_open @ ws1 @ payload @ ws2 @ fence_close @ post))
          = map (\<lambda>item. str (IssueType_value (the (payload_type item)))) items \<and>
        map severity (parseIssuesFromOutput (pre @ fence_open @ ws1 @ payload @ ws2 @ fence_close @ post))
          = map (\<lambda>item. str (IssueSeverity_value (the (payload_severity item)))) items) \<and>
   (fence_match text = None \<and> JSON_parse text = None \<longrightarrow> parseIssuesFromOutput text = [])"
proof (intro conjI impI)
  assume a: "fence_match text = None \<and> JSON_parse text = None"
  then have "JSON_parse (extract_json text) = None" by (simp add: extract_json_def)
  then show "parseIssuesFromOutput text = []" by (rule parseIssues_no_json)
next
  let ?text = "pre @ fence_open @ ws1 @ payload @ ws2 @ fence_close @ post"
  assume a: "\<not> sublist fence_open pre \<and> (\<forall>c\<in>set ws1. is_ws c) \<and> (\<forall>c\<in>set ws2. is_ws c) \<and>
    payload \<noteq> [] \<and> hd payload = 0x7B \<and> last payload = 0x7D \<and> \<not> sublist fence_close payload \<and>
    JSON_parse payload = Some (JObj ms) \<and> map_of (rev ms) (js ''issues'') = Some (JArr items) \<and>
    (\<forall>item\<in>set items. payload_type item \<noteq> None \<and> payload_severity item \<noteq> None)"
  then have "fence_match ?text = Some payload"
    by (intro fence_match_payload) simp_all
  then have e: "JSON_parse (extract_json ?text) = Some (JObj ms)"
    using a by (simp add: extract_json_def)
  from a have i: "map_of (rev ms) (js ''issues'') = Some (JArr items)"
    and w: "\<forall>item\<in>set items. payload_type item \<noteq> None \<and> payload_severity item \<noteq> None" by simp_all
  note d = parseIssues_decoded [OF e i w]
  from d show "length (parseIssuesFromOutput ?text) = length items" by simp
  from d show "map issue_type (parseIssuesFromOutput ?text)
          = map (\<lambda>item. str (IssueType_value (the (payload_type item)))) items" by simp
  from d show "map severity (parseIssuesFromOutput ?text)
          = map (\<lambda>item. str (IssueSeverity_value (the (payload_severity item)))) items" by simp
qed

lemma payload_two_issues_decoded:
  "JSON_parse payload_two_issues =
     Some (JObj [(js ''issues'', JArr
       [JObj [(js ''type'', JStr (js ''Security'')), (js ''severity'', JStr (js ''HIGH''))],
        JObj [(js ''type'', JStr (js ''bug'')), (js ''severity'', JStr (js ''low''))]])])"
  by (simp add: payload_two_issues_def eval_defs)

text \<open>
  C3 on a concrete answer: prose, a fenced payload of two issues, prose; and a text
  without JSON.
\<close>

theorem parseIssues_round_trip_witness:
  "map issue_type (parseIssuesFromOutput
      (js ''Found:'' @ [0x0A] @ fence_open @ [0x0A] @ payload_two_issues @ [0x0A] @ fence_close @ js '' done''))
     = [str (js ''security''), str (js ''bug'')] \<and>
   map severity (parseIssuesFromOutput
      (js ''Found:'' @ [0x0A] @ fence_open @ [0x0A] @ payload_two_issues @ [0x0A] @ fence_close @ js '' done''))
     = [str (js ''high''), str (js ''low'')] \<and>
   parseIssuesFromOutput (js ''no issues found'') = []"
proof -
  have h1: "\<not> sublist fence_open (js ''Found:'' @ [0x0A])"
    by (simp add: fence_open_def js_def sublist_Cons_right)
  have h2: "payload_two_issues \<noteq> [] \<and> hd payload_two_issues = 0x7B \<and> last payload_two_issues = 0x7D
      \<and> \<not> sublist fence_close payload_two_issues"
    by (simp add: payload_two_issues_def fence_close_def js_def sublist_Cons_right)
  have h3: "\<forall>item\<in>set [JObj [(js ''type'', JStr (js ''Security'')), (js ''severity'', JStr (js ''HIGH''))],
        JObj [(js ''type'', JStr (js ''bug'')), (js ''severity'', JStr (js ''low''))]].
        payload_type item \<noteq> None \<and> payload_severity item \<noteq> None"
    by (simp add: named_IssueType_def named_IssueSeverity_def toLowerCase_def lower_unit_def js_def)
  have h4: "fence_match (js ''no issues found'') = None \<and> JSON_parse (js ''no issues found'') = None"
    by (simp add: eval_defs)
  have h5: "\<forall>c\<in>set [0x0A]. is_ws c" by (simp add: is_ws_def)
  from parseIssues_round_trip [of "js ''Found:'' @ [0x0A]" "[0x0A]" "[0x0A]" payload_two_issues
      "[(js ''issues'', JArr
       [JObj [(js ''type'', JStr (js ''Security'')), (js ''severity'', JStr (js ''HIGH''))],
        JObj [(js ''type'', JStr (js ''bug'')), (js ''severity'', JStr (js ''low''))]])]"
      "[JObj [(js ''type'', JStr (js ''Security'')), (js ''severity'', JStr (js ''HIGH''))],
        JObj [(js ''type'', JStr (js ''bug'')), (js ''severity'', JStr (js ''low''))]]"
      "js '' done''" "js ''no issues found''"]
    h1 h2 h3 h4 h5 payload_two_issues_decoded
  show ?thesis
    by (simp add: named_IssueType_def named_IssueSeverity_def toLowerCase_def lower_unit_def js_def)
qed

text \<open>
  C3 as first stated fails: a well-formed payload of one issue whose description quotes
  a fence. The lazy group of the regular expression ends at the quoted backticks, the
  truncated text does not decode, and the parsed list is empty instead of holding the one
  issue.
\<close>

theorem parseIssues_round_trip_counterexample:
  "JSON_parse payload_quoting_fence =
     Some (JObj [(js ''issues'', JArr
       [JObj [(js ''type'', JStr (js ''bug'')), (js ''severity'', JStr (js ''high'')),
              (js ''description'', JStr (js ''see ``` below''))]])]) \<and>
   parseIssuesFromOutput (fence_open @ [0x0A] @ payload_quoting_fence @ [0x0A] @ fence_close) = []"
  by (simp add: payload_quoting_fence_def eval_defs)

text \<open>
  Claim C9 at a failing input: the type string \<open>constructor\<close> is not one of the four
  types, yet it is not coerced to \<open>bug\<close>. \<open>typeMap[...]\<close> finds the member that the
  object literal inherits from \<open>Object.prototype\<close>, which is truthy, so the issue's
  type is that function.
\<close>

theorem parseIssueType_prototype_key:
  "parseIssuesFromOutput payload_prototype_key =
     [\<lparr>issue_id = js ''issue-1'', issue_type = Inherited (js ''constructor''),
       severity = str (js ''high''), description = str (js ''x''), filePath = Undefined,
       lineNumber = Undefined, suggestedFix = Undefined, assignedTo = Undefined\<rparr>] \<and>
   Inherited (js ''constructor'') \<noteq> str (IssueType_value BUG)"
  by (simp add: payload_prototype_key_def eval_defs)


section \<open>Theorems about the ids and the payload\<close>

lemma get_prop_field:
  "item \<noteq> JNull \<Longrightarrow> k \<notin> set object_prototype_keys \<Longrightarrow> get_prop item k = Some (payload_field item k)"
  by (cases item) (simp_all add: object_get_def map_of_rev_Json split: option.splits)

lemma nameable_lowered: "nameable v \<Longrightarrow> \<exists>k. lowered_key v = Some k"
  by (cases v rule: nameable.cases) simp_all

lemma make_issue_readable:
  assumes "readable_item item"
  shows "\<exists>i. make_issue k item = Some i \<and>
     description i = or_else (payload_field item (js ''description'')) (str []) \<and>
     filePath i = payload_field item (js ''filePath'') \<and>
     lineNumber i = payload_field item (js ''lineNumber'') \<and>
     suggestedFix i = payload_field item (js ''suggestedFix'')"
proof -
  from assms have n: "item \<noteq> JNull" and nt: "nameable (payload_field item (js ''type''))"
    and ns: "nameable (payload_field item (js ''severity''))"
    by (simp_all add: readable_item_def)
  have k: "js ''type'' \<notin> set object_prototype_keys" "js ''severity'' \<notin> set object_prototype_keys"
    "js ''description'' \<notin> set object_prototype_keys" "js ''filePath'' \<notin> set object_prototype_keys"
    "js ''lineNumber'' \<notin> set object_prototype_keys" "js ''suggestedFix'' \<notin> set object_prototype_keys"
    by (simp_all add: object_prototype_keys_def js_def)
  note g = k [THEN get_prop_field [OF n]]
  from nameable_lowered [OF nt] obtain kt where kt: "lowered_key (payload_field item (js ''type'')) = Some kt"
    by blast
  from nameable_lowered [OF ns] obtain ks where ks: "lowered_key (payload_field item (js ''severity'')) = Some ks"
    by blast
  show ?thesis
    by (simp add: make_issue_def g parseIssueType_def parseSeverity_def kt ks del: get_prop.simps)
qed

lemma map_issues_readable:
  "\<forall>item\<in>set items. readable_item item \<Longrightarrow>
   \<exists>is. map_issues k items = Some is \<and> length is = length items \<and>
     (\<forall>j<length items.
        description (is ! j) = or_else (payload_field (items ! j) (js ''description'')) (str []) \<and>
        filePath (is ! j) = payload_field (items ! j) (js ''filePath'') \<and>
        lineNumber (is ! j) = payload_field (items ! j) (js ''lineNumber'') \<and>
        suggestedFix (is ! j) = payload_field (items ! j) (js ''suggestedFix''))"
proof (induction items arbitrary: k)
  case Nil then show ?case by simp
next
  case (Cons item items)
  from Cons.prems have r: "readable_item item" and rs: "\<forall>item\<in>set items. readable_item item"
    by simp_all
  from make_issue_readable [OF r, of k] obtain i where i: "make_issue k item = Some i"
     "description i = or_else (payload_field item (js ''description'')) (str [])"
     "filePath i = payload_field item (js ''filePath'')"
     "lineNumber i = payload_field item (js ''lineNumber'')"
     "suggestedFix i = payload_field item (js ''suggestedFix'')" by blast
  from Cons.IH [OF rs, of "k + 1"] obtain rest where rest: "map_issues (k + 1) items = Some rest"
     "length rest = length items"
     "\<forall>j<length items.
        description (rest ! j) = or_else (payload_field (items ! j) (js ''description'')) (str []) \<and>
        filePath (rest ! j) = payload_field (items ! j) (js ''filePath'') \<and>
        lineNumber (rest ! j) = payload_field (items ! j) (js ''lineNumber'') \<and>
        suggestedFix (rest ! j) = payload_field (items ! j) (js ''suggestedFix'')" by blast
  have "\<forall>j<length (item # items).
        description ((i # rest) ! j) = or_else (payload_field ((item # items) ! j) (js ''description'')) (str []) \<and>
        filePath ((i # rest) ! j) = payload_field ((item # items) ! j) (js ''filePath'') \<and>
        lineNumber ((i # rest) ! j) = payload_field ((item # items) ! j) (js ''lineNumber'') \<and>
        suggestedFix ((i # rest) ! j) = payload_field ((item # items) ! j) (js ''suggestedFix'')"
  proof (intro allI impI)
    fix j assume "j < length (item # items)"
    then show "description ((i # rest) ! j) = or_else (payload_field ((item # items) ! j) (js ''description'')) (str []) \<and>
        filePath ((i # rest) ! j) = payload_field ((item # items) ! j) (js ''filePath'') \<and>
        lineNumber ((i # rest) ! j) = payload_field ((item # items) ! j) (js ''lineNumber'') \<and>
        suggestedFix ((i # rest) ! j) = payload_field ((item # items) ! j) (js ''suggestedFix'')"
      using i(2-5) rest(3) by (cases j) simp_all
  qed
  with i(1) rest(1,2) show ?case by simp
qed

lemma parseIssues_readable:
  assumes "JSON_parse (extract_json output) = Some (JObj ms)"
    and "map_of (rev ms) (js ''issues'') = Some (JArr items)"
    and "\<forall>item\<in>set items. readable_item item"
  shows "length (parseIssuesFromOutput output) = length items \<and>
     (\<forall>j<length items.
        description (parseIssuesFromOutput output ! j) =
          or_else (payload_field (items ! j) (js ''description'')) (str []) \<and>
        filePath (parseIssuesFromOutput output ! j) = payload_field (items ! j) (js ''filePath'') \<and>
        lineNumber (parseIssuesFromOutput output ! j) = payload_field (items ! j) (js ''lineNumber'') \<and>
        suggestedFix (parseIssuesFromOutput output ! j) = payload_field (items ! j) (js ''suggestedFix''))"
proof -
  from map_issues_readable [OF assms(3), of 0] obtain "is" where r: "map_issues 0 items = Some is"
     "length is = length items"
     "\<forall>j<length items.
        description (is ! j) = or_else (payload_field (items ! j) (js ''description'')) (str []) \<and>
        filePath (is ! j) = payload_field (items ! j) (js ''filePath'') \<and>
        lineNumber (is ! j) = payload_field (items ! j) (js ''lineNumber'') \<and>
        suggestedFix (is ! j) = payload_field (items ! j) (js ''suggestedFix'')" by blast
  have "parseIssuesFromOutput output = is"
    using assms(1) get_prop_own [OF assms(2)] r(1)
    by (simp add: parseIssuesFromOutput_def parseIssues_try_def del: get_prop.simps)
  with r(2,3) show ?thesis by simp
qed

text \<open>
  Claim C10. When the answer decodes to an object whose \<open>issues\<close> is an array of items
  that the conversion can read, there is one parsed issue for each item, in the order of
  the payload: the issue at position \<open>k\<close> (from 0) has the id \<open>issue-(k+1)\<close> and the
  description, file path, line number and suggested fix of the item at that position,
  whatever \<open>id\<close> the item carries. For every answer the ids of the parsed issues are
  \<open>issue-1\<close> to \<open>issue-N\<close> by position and pairwise distinct; the verdict keeps a
  subsequence of these issues, so it yields no other id; and a value of \<open>issueId\<close> in a
  verdict entry equals the id of at most one issue.
\<close>

theorem issue_ids_positional_unique:
  "(JSON_parse (extract_json output) = Some (JObj ms) \<and>
    map_of (rev ms) (js ''issues'') = Some (JArr items) \<and>
    (\<forall>item\<in>set items. readable_item item)
    \<longrightarrow> length (parseIssuesFromOutput output) = length items \<and>
        (\<forall>k<length items.
           issue_id (parseIssuesFromOutput output ! k) = js ''issue-'' @ nat_text (k + 1) \<and>
           description (parseIssuesFromOutput output ! k) =
             or_else (payload_field (items ! k) (js ''description'')) (str []) \<and>
           filePath (parseIssuesFromOutput output ! k) = payload_field (items ! k) (js ''filePath'') \<and>
           lineNumber (parseIssuesFromOutput output ! k) = payload_field (items ! k) (js ''lineNumber'') \<and>
           suggestedFix (parseIssuesFromOutput output ! k) =
             payload_field (items ! k) (js ''suggestedFix''))) \<and>
   map issue_id (parseIssuesFromOutput output) =
     map (\<lambda>index. js ''issue-'' @ nat_text (index + 1)) [0..<length (parseIssuesFromOutput output)] \<and>
   distinct (map issue_id (parseIssuesFromOutput output)) \<and>
   subseq (map issue_id (parseVerdictAndAssign verdict (parseIssuesFromOutput output)))
          (map issue_id (parseIssuesFromOutput output)) \<and>
   length (filter (\<lambda>i. issueId = str (issue_id i)) (parseIssuesFromOutput output)) \<le> 1"
proof -
  have d: "distinct (map issue_id (parseIssuesFromOutput output))"
    by (subst parseIssues_ids) (rule distinct_generated)
  have ids: "map issue_id (parseIssuesFromOutput output) =
     map (\<lambda>index. js ''issue-'' @ nat_text (index + 1)) [0..<length (parseIssuesFromOutput output)]"
    using parseIssues_ids [of "output"] by (simp add: generated_id_def [abs_def])
  have one: "length (filter (\<lambda>i. issueId = str (issue_id i)) (parseIssuesFromOutput output)) \<le> 1"
  proof -
    have "distinct (map (\<lambda>i. str (issue_id i)) (parseIssuesFromOutput output))"
      using d by (simp add: distinct_map inj_on_def str_def)
    then show ?thesis by (rule distinct_filter_le_1)
  qed
  have id_at: "issue_id (parseIssuesFromOutput output ! k) = js ''issue-'' @ nat_text (k + 1)"
    if "k < length (parseIssuesFromOutput output)" for k
  proof -
    from that have "issue_id (parseIssuesFromOutput output ! k) = map issue_id (parseIssuesFromOutput output) ! k"
      by simp
    also have "\<dots> = js ''issue-'' @ nat_text (k + 1)"
      unfolding ids using that by simp
    finally show ?thesis .
  qed
  have pay: "length (parseIssuesFromOutput output) = length items \<and>
        (\<forall>k<length items.
           issue_id (parseIssuesFromOutput output ! k) = js ''issue-'' @ nat_text (k + 1) \<and>
           description (parseIssuesFromOutput output ! k) =
             or_else (payload_field (items ! k) (js ''description'')) (str []) \<and>
           filePath (parseIssuesFromOutput output ! k) = payload_field (items ! k) (js ''filePath'') \<and>
           lineNumber (parseIssuesFromOutput output ! k) = payload_field (items ! k) (js ''lineNumber'') \<and>
           suggestedFix (parseIssuesFromOutput output ! k) =
             payload_field (items ! k) (js ''suggestedFix''))"
    if a: "JSON_parse (extract_json output) = Some (JObj ms) \<and>
      map_of (rev ms) (js ''issues'') = Some (JArr items) \<and>
      (\<forall>item\<in>set items. readable_item item)"
  proof -
    from a have a1: "JSON_parse (extract_json output) = Some (JObj ms)"
      and a2: "map_of (rev ms) (js ''issues'') = Some (JArr items)"
      and a3: "\<forall>item\<in>set items. readable_item item" by simp_all
    note r = parseIssues_readable [OF a1 a2 a3]
    from r have l: "length (parseIssuesFromOutput output) = length items" by simp
    from r id_at l show ?thesis by simp
  qed
  from pay ids d one parseVerdict_subseq [of verdict "parseIssuesFromOutput output"]
  show ?thesis by blast
qed

lemma payload_with_ids_decoded:
  "JSON_parse (extract_json payload_with_ids) =
     Some (JObj [(js ''issues'', JArr
       [JObj [(js ''id'', JStr (js ''A'')), (js ''description'', JStr (js ''first''))],
        JObj [(js ''id'', JStr (js ''A'')), (js ''description'', JStr (js ''second'')),
              (js ''filePath'', JStr (js ''b.ts''))]])])"
  by (simp add: payload_with_ids_def eval_defs)

text \<open>
  C10 on a payload of two items that both carry the id \<open>A\<close>: the parsed issues are
  \<open>issue-1\<close> and \<open>issue-2\<close>, with the descriptions of the items in payload order.
\<close>

theorem issue_ids_positional_unique_witness:
  "map issue_id (parseIssuesFromOutput payload_with_ids) = [js ''issue-1'', js ''issue-2''] \<and>
   map description (parseIssuesFromOutput payload_with_ids) = [str (js ''first''), str (js ''second'')] \<and>
   map filePath (parseIssuesFromOutput payload_with_ids) = [Undefined, str (js ''b.ts'')]"
proof -
  let ?items = "[JObj [(js ''id'', JStr (js ''A'')), (js ''description'', JStr (js ''first''))],
        JObj [(js ''id'', JStr (js ''A'')), (js ''description'', JStr (js ''second'')),
              (js ''filePath'', JStr (js ''b.ts''))]]"
  have h1: "map_of (rev [(js ''issues'', JArr ?items)]) (js ''issues'') = Some (JArr ?items)"
    by simp
  have h2: "\<forall>item\<in>set ?items. readable_item item"
    by (simp add: readable_item_def js_def)
  have k: "\<forall>k<length ?items. P k \<Longrightarrow> P 0 \<and> P 1" for P
    by simp
  from issue_ids_positional_unique [of payload_with_ids "[(js ''issues'', JArr ?items)]" ?items]
    payload_with_ids_decoded h1 h2
  have "length (parseIssuesFromOutput payload_with_ids) = length ?items" and
    "\<forall>k<length ?items.
           issue_id (parseIssuesFromOutput payload_with_ids ! k) = js ''issue-'' @ nat_text (k + 1) \<and>
           description (parseIssuesFromOutput payload_with_ids ! k) =
             or_else (payload_field (?items ! k) (js ''description'')) (str []) \<and>
           filePath (parseIssuesFromOutput payload_with_ids ! k) = payload_field (?items ! k) (js ''filePath'') \<and>
           lineNumber (parseIssuesFromOutput payload_with_ids ! k) = payload_field (?items ! k) (js ''lineNumber'') \<and>
           suggestedFix (parseIssuesFromOutput payload_with_ids ! k) =
             payload_field (?items ! k) (js ''suggestedFix'')"
    by blast+
  from this(1) k [OF this(2)] show ?thesis
    by (simp add: list_eq_iff_nth_eq less_Suc_eq or_else_def str_def js_def nat_text.simps)
qed


section \<open>Theorems about the verdict\<close>

lemma find_confirmed_wellformed:
  "\<forall>c\<in>set entries. wellformed_entry c \<Longrightarrow> find_confirmed ident entries = Some (first_entry ident entries)"
proof (induction entries)
  case Nil then show ?case by (simp add: first_entry_def)
next
  case (Cons c entries)
  then obtain ms where c: "c = JObj ms" by (cases c) auto
  from Cons show ?case by (simp add: first_entry_def c)
qed

lemma first_entry_in: "first_entry ident entries = Some c \<Longrightarrow> c \<in> set entries"
  by (auto simp: first_entry_def find_Some_iff)

lemma wellformed_parseCLIType:
  assumes "wellformed_entry c"
  shows "\<exists>a cli. get_prop c (js ''assignTo'') = Some a \<and> parseCLIType a = Some cli"
proof -
  from assms obtain ms where c: "c = JObj ms" by (cases c) auto
  have k: "js ''assignTo'' \<notin> set object_prototype_keys" by (simp add: object_prototype_keys_def js_def)
  show ?thesis
  proof (cases "map_of (rev ms) (js ''assignTo'')")
    case None
    then have "get_prop c (js ''assignTo'') = Some Undefined"
      using k by (simp add: c object_get_def map_of_rev_Json)
    then show ?thesis by (simp add: parseCLIType_def)
  next
    case (Some v)
    then have g: "get_prop c (js ''assignTo'') = Some (Json v)" unfolding c by (rule get_prop_own)
    from Some assms c have "v = JNull \<or> (\<exists>s. v = JStr s)" by (cases v) auto
    then have "\<exists>cli. parseCLIType (Json v) = Some cli" by (auto simp: parseCLIType_def)
    with g show ?thesis by blast
  qed
qed

lemma named_CLIType_lookup:
  "named_CLIType s = Some c \<Longrightarrow>
   or_else (object_get cliMap (toLowerCase s)) (str (CLIType_value CLAUDE)) = str (CLIType_value c)"
proof -
  assume "named_CLIType s = Some c"
  then have l: "toLowerCase s = CLIType_value c"
    by (auto simp: named_CLIType_def split: if_splits)
  have "or_else (object_get cliMap (CLIType_value c)) (str (CLIType_value CLAUDE)) = str (CLIType_value c)"
    by (cases c) (simp_all add: object_get_def cliMap_def or_else_def str_def js_def)
  with l show ?thesis by simp
qed

lemma unnamed_CLIType_lookup:
  assumes "named_CLIType s = None" "toLowerCase s \<notin> set object_prototype_keys"
  shows "or_else (object_get cliMap (toLowerCase s)) (str (CLIType_value CLAUDE)) = str (CLIType_value CLAUDE)"
proof -
  from assms(1) have "toLowerCase s \<noteq> js ''claude''" "toLowerCase s \<noteq> js ''codex''"
    "toLowerCase s \<noteq> js ''gemini''"
    by (auto simp: named_CLIType_def split: if_splits)
  with assms(2) show ?thesis
    by (simp add: object_get_def cliMap_def or_else_def)
qed

lemma undefined_lookup:
  "or_else (object_get cliMap (js ''undefined'')) (str (CLIType_value CLAUDE)) = str (CLIType_value CLAUDE)"
  by (simp add: object_get_def cliMap_def or_else_def object_prototype_keys_def js_def)

lemma entry_backend_assigned:
  assumes "wellformed_entry c" "names_backend c"
  shows "\<exists>a. get_prop c (js ''assignTo'') = Some a \<and>
     parseCLIType a = Some (str (CLIType_value (entry_backend c)))"
proof -
  from assms obtain ms where c: "c = JObj ms" by (cases c) auto
  have k: "js ''assignTo'' \<notin> set object_prototype_keys" by (simp add: object_prototype_keys_def js_def)
  show ?thesis
  proof (cases "map_of (rev ms) (js ''assignTo'')")
    case None
    then have "get_prop c (js ''assignTo'') = Some Undefined"
      using k by (simp add: c object_get_def map_of_rev_Json)
    moreover have "parseCLIType Undefined = Some (str (CLIType_value (entry_backend c)))"
      using None undefined_lookup by (simp add: parseCLIType_def c)
    ultimately show ?thesis by blast
  next
    case (Some v)
    then have g: "get_prop c (js ''assignTo'') = Some (Json v)" unfolding c by (rule get_prop_own)
    from Some assms c consider "v = JNull" | s where "v = JStr s" "toLowerCase s \<notin> set object_prototype_keys"
      by (cases v) auto
    then show ?thesis
    proof cases
      case 1
      then have "parseCLIType (Json v) = Some (str (CLIType_value (entry_backend c)))"
        using Some undefined_lookup by (simp add: parseCLIType_def c)
      with g show ?thesis by blast
    next
      case 2
      have "parseCLIType (Json v) = Some (str (CLIType_value (entry_backend c)))"
      proof (cases "named_CLIType s")
        case None
        from unnamed_CLIType_lookup [OF None 2(2)] None Some 2(1) show ?thesis
          by (simp add: parseCLIType_def c)
      next
        case (Some b)
        from named_CLIType_lookup [OF Some] Some \<open>map_of (rev ms) (js ''assignTo'') = Some v\<close> 2(1)
        show ?thesis by (simp add: parseCLIType_def c)
      qed
      with g show ?thesis by blast
    qed
  qed
qed

lemma assign_loop_kept:
  assumes "\<forall>c\<in>set entries. wellformed_entry c"
  shows "\<exists>r. assign_loop entries issues = Some r \<and>
     map (\<lambda>i. i\<lparr>assignedTo := Undefined\<rparr>) r =
     map (\<lambda>i. i\<lparr>assignedTo := Undefined\<rparr>) (kept_issues entries issues)"
proof (induction issues)
  case Nil then show ?case by (simp add: kept_issues_def)
next
  case (Cons issue issues)
  then obtain r where r: "assign_loop entries issues = Some r"
     "map (\<lambda>i. i\<lparr>assignedTo := Undefined\<rparr>) r =
      map (\<lambda>i. i\<lparr>assignedTo := Undefined\<rparr>) (kept_issues entries issues)" by blast
  note f = find_confirmed_wellformed [OF assms, of "issue_id issue"]
  show ?case
  proof (cases "first_entry (issue_id issue) entries")
    case None
    with f r show ?thesis by (simp add: verdict_confirms_def kept_issues_def)
  next
    case (Some c)
    with assms have w: "wellformed_entry c" using first_entry_in by blast
    then obtain ms where c: "c = JObj ms" by (cases c) auto
    from wellformed_parseCLIType [OF w] obtain a cli where
      a: "get_prop c (js ''assignTo'') = Some a" "parseCLIType a = Some cli" by blast
    obtain flag where fl: "get_prop c (js ''confirmed'') = Some flag" by (simp add: c)
    from f Some r a fl show ?thesis
      by (simp add: verdict_confirms_def kept_issues_def entry_confirms_def del: get_prop.simps)
  qed
qed

lemma assign_loop_backend:
  assumes "\<forall>c\<in>set entries. wellformed_entry c" "\<forall>c\<in>set entries. names_backend c"
  shows "assign_loop entries issues =
     Some (map (\<lambda>i. i\<lparr>assignedTo := str (CLIType_value (verdict_backend entries (issue_id i)))\<rparr>)
            (kept_issues entries issues))"
proof (induction issues)
  case Nil then show ?case by (simp add: kept_issues_def)
next
  case (Cons issue issues)
  note f = find_confirmed_wellformed [OF assms(1), of "issue_id issue"]
  show ?case
  proof (cases "first_entry (issue_id issue) entries")
    case None
    with f Cons show ?thesis by (simp add: verdict_confirms_def kept_issues_def)
  next
    case (Some c)
    with assms have w: "wellformed_entry c" "names_backend c" using first_entry_in by blast+
    then obtain ms where c: "c = JObj ms" by (cases c) auto
    from entry_backend_assigned [OF w] obtain a where
      a: "get_prop c (js ''assignTo'') = Some a"
         "parseCLIType a = Some (str (CLIType_value (entry_backend c)))" by blast
    obtain flag where fl: "get_prop c (js ''confirmed'') = Some flag" by (simp add: c)
    from f Some Cons a fl show ?thesis
      by (simp add: verdict_confirms_def verdict_backend_def kept_issues_def entry_confirms_def
          del: get_prop.simps)
  qed
qed

lemma parseVerdict_no_json:
  "JSON_parse (extract_json text) = None \<Longrightarrow> parseVerdictAndAssign text issues = issues"
  by (simp add: parseVerdictAndAssign_def parseVerdict_try_def)

lemma parseVerdict_no_array:
  "JSON_parse (extract_json text) = Some (JObj ms) \<Longrightarrow> map_of (rev ms) (js ''confirmedIssues'') = None \<Longrightarrow>
   parseVerdictAndAssign text issues = issues"
proof -
  have k: "js ''confirmedIssues'' \<notin> set object_prototype_keys" by (simp add: object_prototype_keys_def js_def)
  assume "JSON_parse (extract_json text) = Some (JObj ms)" "map_of (rev ms) (js ''confirmedIssues'') = None"
  then show ?thesis using k
    by (simp add: parseVerdictAndAssign_def parseVerdict_try_def object_get_def map_of_rev_Json)
qed

text \<open>
  Claim C4, as amended. When the verdict decodes to an object whose \<open>confirmedIssues\<close>
  is an array of objects (each \<open>assignTo\<close> a string, \<open>null\<close> or absent), the result
  is, in the order of the working list, the issues for which the first entry with their
  id has a truthy \<open>confirmed\<close>, unchanged but for \<open>assignedTo\<close>; every other issue is
  dropped. If moreover no \<open>assignTo\<close> lowers to the name of a member of
  \<open>Object.prototype\<close>, each kept issue is assigned the backend that its entry names:
  the one of \<open>claude\<close>, \<open>codex\<close>, \<open>gemini\<close> that \<open>assignTo\<close> spells in any letter
  case, and \<open>claude\<close> when \<open>assignTo\<close> is absent, \<open>null\<close> or spells none of them.
  When the verdict does not decode, or decodes to an object without \<open>confirmedIssues\<close>,
  the working list is returned as it is.
\<close>

theorem parseVerdict_first_entry_decides:
  "(JSON_parse (extract_json text) = Some (JObj ms) \<and>
    map_of (rev ms) (js ''confirmedIssues'') = Some (JArr entries) \<and>
    (\<forall>c\<in>set entries. wellformed_entry c)
    \<longrightarrow> map (\<lambda>i. i\<lparr>assignedTo := Undefined\<rparr>) (parseVerdictAndAssign text issues) =
          map (\<lambda>i. i\<lparr>assignedTo := Undefined\<rparr>)
            (filter (\<lambda>i. verdict_confirms entries (issue_id i)) issues) \<and>
        ((\<forall>c\<in>set entries. names_backend c) \<longrightarrow>
           parseVerdictAndAssign text issues =
             map (\<lambda>i. i\<lparr>assignedTo := str (CLIType_value (verdict_backend entries (issue_id i)))\<rparr>)
               (filter (\<lambda>i. verdict_confirms entries (issue_id i)) issues))) \<and>
   (JSON_parse (extract_json text1) = None \<longrightarrow> parseVerdictAndAssign text1 issues1 = issues1) \<and>
   (JSON_parse (extract_json text2) = Some (JObj ms2) \<and> map_of (rev ms2) (js ''confirmedIssues'') = None
    \<longrightarrow> parseVerdictAndAssign text2 issues2 = issues2)"
proof (intro conjI impI)
  assume "JSON_parse (extract_json text1) = None"
  then show "parseVerdictAndAssign text1 issues1 = issues1" by (rule parseVerdict_no_json)
next
  assume "JSON_parse (extract_json text2) = Some (JObj ms2) \<and> map_of (rev ms2) (js ''confirmedIssues'') = None"
  then show "parseVerdictAndAssign text2 issues2 = issues2" using parseVerdict_no_array by blast
next
  assume a: "JSON_parse (extract_json text) = Some (JObj ms) \<and>
    map_of (rev ms) (js ''confirmedIssues'') = Some (JArr entries) \<and>
    (\<forall>c\<in>set entries. wellformed_entry c)"
  then have w: "\<forall>c\<in>set entries. wellformed_entry c" by simp
  from a have g: "get_prop (JObj ms) (js ''confirmedIssues'') = Some (Json (JArr entries))"
    using get_prop_own by blast
  from assign_loop_kept [OF w, of issues] obtain r where r: "assign_loop entries issues = Some r"
     "map (\<lambda>i. i\<lparr>assignedTo := Undefined\<rparr>) r =
      map (\<lambda>i. i\<lparr>assignedTo := Undefined\<rparr>) (kept_issues entries issues)" by blast
  have "parseVerdictAndAssign text issues = r"
    using a g r(1) by (simp add: parseVerdictAndAssign_def parseVerdict_try_def del: get_prop.simps)
  with r(2) show "map (\<lambda>i. i\<lparr>assignedTo := Undefined\<rparr>) (parseVerdictAndAssign text issues) =
          map (\<lambda>i. i\<lparr>assignedTo := Undefined\<rparr>)
            (filter (\<lambda>i. verdict_confirms entries (issue_id i)) issues)"
    by (simp add: kept_issues_def)
  assume n: "\<forall>c\<in>set entries. names_backend c"
  show "parseVerdictAndAssign text issues =
             map (\<lambda>i. i\<lparr>assignedTo := str (CLIType_value (verdict_backend entries (issue_id i)))\<rparr>)
               (filter (\<lambda>i. verdict_confirms entries (issue_id i)) issues)"
    using a g assign_loop_backend [OF w n, of issues]
    by (simp add: parseVerdictAndAssign_def parseVerdict_try_def kept_issues_def del: get_prop.simps)
qed


lemma two_issues_parsed:
  "parseIssuesFromOutput payload_two_issues =
    [\<lparr>issue_id = js ''issue-1'', issue_type = str (js ''security''), severity = str (js ''high''),
      description = str [], filePath = Undefined, lineNumber = Undefined,
      suggestedFix = Undefined, assignedTo = Undefined\<rparr>,
     \<lparr>issue_id = js ''issue-2'', issue_type = str (js ''bug''), severity = str (js ''low''),
      description = str [], filePath = Undefined, lineNumber = Undefined,
      suggestedFix = Undefined, assignedTo = Undefined\<rparr>]"
  by (simp add: payload_two_issues_def eval_defs)

lemma verdict_assigning_decoded:
  "JSON_parse (extract_json verdict_assigning) =
     Some (JObj [(js ''confirmedIssues'', JArr
       [JObj [(js ''issueId'', JStr (js ''issue-2'')), (js ''confirmed'', JBool True),
              (js ''assignTo'', JStr (js ''Codex''))],
        JObj [(js ''issueId'', JStr (js ''issue-1'')), (js ''confirmed'', JBool False)]])])"
  by (simp add: verdict_assigning_def eval_defs)

text \<open>
  C4 on concrete verdicts over the two issues parsed above: one that confirms the second
  issue for Codex and rejects the first, one that is prose, and one without
  \<open>confirmedIssues\<close>.
\<close>

theorem parseVerdict_first_entry_decides_witness:
  "map issue_id (parseVerdictAndAssign verdict_assigning (parseIssuesFromOutput payload_two_issues))
     = [js ''issue-2''] \<and>
   map assignedTo (parseVerdictAndAssign verdict_assigning (parseIssuesFromOutput payload_two_issues))
     = [str (js ''codex'')] \<and>
   parseVerdictAndAssign (js ''I cannot decide'') (parseIssuesFromOutput payload_two_issues)
     = parseIssuesFromOutput payload_two_issues \<and>
   parseVerdictAndAssign (js ''{\"summary\": \"nothing\"}'') (parseIssuesFromOutput payload_two_issues)
     = parseIssuesFromOutput payload_two_issues"
proof -
  let ?entries = "[JObj [(js ''issueId'', JStr (js ''issue-2'')), (js ''confirmed'', JBool True),
              (js ''assignTo'', JStr (js ''Codex''))],
        JObj [(js ''issueId'', JStr (js ''issue-1'')), (js ''confirmed'', JBool False)]]"
  have h1: "map_of (rev [(js ''confirmedIssues'', JArr ?entries)]) (js ''confirmedIssues'') = Some (JArr ?entries)"
    by simp
  have h2: "\<forall>c\<in>set ?entries. wellformed_entry c" by (simp add: js_def)
  have h3: "\<forall>c\<in>set ?entries. names_backend c"
    by (simp add: js_def toLowerCase_def lower_unit_def object_prototype_keys_def)
  have h4: "JSON_parse (extract_json (js ''I cannot decide'')) = None" by (simp add: eval_defs)
  have h5: "JSON_parse (extract_json (js ''{\"summary\": \"nothing\"}'')) = Some (JObj [(js ''summary'', JStr (js ''nothing''))])
     \<and> map_of (rev [(js ''summary'', JStr (js ''nothing''))]) (js ''confirmedIssues'') = None"
    by (simp add: eval_defs)
  from parseVerdict_first_entry_decides [of verdict_assigning "[(js ''confirmedIssues'', JArr ?entries)]" ?entries
     "parseIssuesFromOutput payload_two_issues" "js ''I cannot decide''" "parseIssuesFromOutput payload_two_issues"
     "js ''{\"summary\": \"nothing\"}''" "[(js ''summary'', JStr (js ''nothing''))]" "parseIssuesFromOutput payload_two_issues"]
    verdict_assigning_decoded h1 h2 h3 h4 h5
  show ?thesis
    unfolding two_issues_parsed
    by (simp add: verdict_confirms_def verdict_backend_def first_entry_def
        entry_confirms_def named_CLIType_def eval_defs)
qed

text \<open>
  C4 as first stated fails: the verdict references \<open>issue-1\<close> twice, first with
  \<open>confirmed\<close> false and then with \<open>confirmed\<close> true. The id is referenced with
  \<open>confirmed = true\<close>, yet \<open>find\<close> stops at the first entry and the issue is
  dropped.
\<close>

theorem parseVerdict_first_entry_decides_counterexample:
  "JSON_parse (extract_json verdict_contradicting) =
     Some (JObj [(js ''confirmedIssues'', JArr
       [JObj [(js ''issueId'', JStr (js ''issue-1'')), (js ''confirmed'', JBool False)],
        JObj [(js ''issueId'', JStr (js ''issue-1'')), (js ''confirmed'', JBool True)]])]) \<and>
   map issue_id (parseIssuesFromOutput payload_two_issues) = [js ''issue-1'', js ''issue-2''] \<and>
   parseVerdictAndAssign verdict_contradicting (parseIssuesFromOutput payload_two_issues) = []"
  unfolding two_issues_parsed verdict_contradicting_def
  by (simp add: eval_defs)


section \<open>Theorems about the debate\<close>

lemma createAgent_enum:
  "\<exists>a. createAgent (str (CLIType_value c)) role t = Inr a \<and> agent_cliType a = c \<and> agent_role a = role"
  by (cases c) (simp_all add: createAgent_def str_def js_def ClaudeAgent_def CodexAgent_def GeminiAgent_def)

lemma new_DebateOrchestrator_total:
  "\<exists>orch. new_DebateOrchestrator config = Inr orch \<and> o_config orch = config
     \<and> agent_cliType (o_moderator orch) = cfg_cliType (dc_moderator config)
     \<and> agent_cliType (o_challenger orch) = cfg_cliType (dc_challenger config)
     \<and> agent_cliType (o_defender orch) = cfg_cliType (dc_defender config)"
proof -
  obtain m where m: "createAgent (str (CLIType_value (cfg_cliType (dc_moderator config)))) MODERATOR
             (cfg_timeout (dc_moderator config)) = Inr m" "agent_cliType m = cfg_cliType (dc_moderator config)"
    using createAgent_enum by blast
  obtain c where c: "createAgent (str (CLIType_value (cfg_cliType (dc_challenger config)))) CHALLENGER
             (cfg_timeout (dc_challenger config)) = Inr c" "agent_cliType c = cfg_cliType (dc_challenger config)"
    using createAgent_enum by blast
  obtain d where d: "createAgent (str (CLIType_value (cfg_cliType (dc_defender config)))) DEFENDER
             (cfg_timeout (dc_defender config)) = Inr d" "agent_cliType d = cfg_cliType (dc_defender config)"
    using createAgent_enum by blast
  from m c d show ?thesis by (simp add: new_DebateOrchestrator_def)
qed

lemma settle_of_success:
  "res_success (w_execute w n a p) \<Longrightarrow> w_settle w n a p = Inr (w_execute w n a p)"
  by (cases "w_settle w n a p") (simp_all add: w_execute_def)

lemma speak_success:
  assumes "all_succeed w"
  shows "\<exists>content. speak w a role cli prompt failure phase rn s =
     (Inr \<lparr>m_role = role, m_cliType = cli, m_content = content, m_phase = phase, m_roundNumber = rn\<rparr>,
      s\<lparr>os_messages := os_messages s @ [\<lparr>m_role = role, m_cliType = cli, m_content = content, m_phase = phase, m_roundNumber = rn\<rparr>],
        os_events := os_events s @ [MessageStart role (str (CLIType_value cli)), MessageEnd],
        os_invocations := os_invocations s @ [(a, prompt)]\<rparr>)"
proof -
  from assms have ok: "res_success (w_execute w (length (os_invocations s)) a prompt)"
    by (simp add: all_succeed_def)
  note st = settle_of_success [OF ok]
  from ok show ?thesis
    by (simp add: speak_def invoke_def emit_def createMessage_def Let_def st)
qed

lemma executeRound_success:
  assumes "all_succeed w"
  shows "\<exists>r s1. executeRound w P orch n s = (Inr r, s1) \<and> rr_roundNumber r = n \<and> well_formed_round orch r
     \<and> os_messages s1 = os_messages s @ round_messages r"
proof -
  let ?s0 = "emit (RoundStart n) s"
  from speak_success [OF assms] obtain c1 where 1: "speak w (o_challenger orch) CHALLENGER (cfg_cliType (dc_challenger (o_config orch)))
             (getChallengerPrompt P (dc_topic (o_config orch)) n (os_messages ?s0))
             challenge_failed ROUND (Some n) ?s0 = (Inr \<lparr>m_role = CHALLENGER, m_cliType = cfg_cliType (dc_challenger (o_config orch)), m_content = c1, m_phase = ROUND, m_roundNumber = Some n\<rparr>,
      ?s0\<lparr>os_messages := os_messages ?s0 @ [\<lparr>m_role = CHALLENGER, m_cliType = cfg_cliType (dc_challenger (o_config orch)), m_content = c1, m_phase = ROUND, m_roundNumber = Some n\<rparr>],
        os_events := os_events ?s0 @ [MessageStart CHALLENGER (str (CLIType_value (cfg_cliType (dc_challenger (o_config orch))))), MessageEnd],
        os_invocations := os_invocations ?s0 @ [(o_challenger orch, getChallengerPrompt P (dc_topic (o_config orch)) n (os_messages ?s0))]\<rparr>)"
    (is "_ = (Inr ?m1, ?s1)") by blast
  from speak_success [OF assms] obtain c2 where 2: "speak w (o_defender orch) DEFENDER (cfg_cliType (dc_defender (o_config orch)))
             (getDefenderPrompt P (dc_topic (o_config orch)) n (os_messages ?s1))
             defense_failed ROUND (Some n) ?s1 = (Inr \<lparr>m_role = DEFENDER, m_cliType = cfg_cliType (dc_defender (o_config orch)), m_content = c2, m_phase = ROUND, m_roundNumber = Some n\<rparr>,
      ?s1\<lparr>os_messages := os_messages ?s1 @ [\<lparr>m_role = DEFENDER, m_cliType = cfg_cliType (dc_defender (o_config orch)), m_content = c2, m_phase = ROUND, m_roundNumber = Some n\<rparr>],
        os_events := os_events ?s1 @ [MessageStart DEFENDER (str (CLIType_value (cfg_cliType (dc_defender (o_config orch))))), MessageEnd],
        os_invocations := os_invocations ?s1 @ [(o_defender orch, getDefenderPrompt P (dc_topic (o_config orch)) n (os_messages ?s1))]\<rparr>)"
    (is "_ = (Inr ?m2, ?s2)") by blast
  from speak_success [OF assms] obtain c3 where 3: "speak w (o_moderator orch) MODERATOR (cfg_cliType (dc_moderator (o_config orch)))
             (getModeratorEvaluationPrompt P (dc_topic (o_config orch)) n (os_messages ?s2))
             evaluation_failed ROUND (Some n) ?s2 = (Inr \<lparr>m_role = MODERATOR, m_cliType = cfg_cliType (dc_moderator (o_config orch)), m_content = c3, m_phase = ROUND, m_roundNumber = Some n\<rparr>,
      ?s2\<lparr>os_messages := os_messages ?s2 @ [\<lparr>m_role = MODERATOR, m_cliType = cfg_cliType (dc_moderator (o_config orch)), m_content = c3, m_phase = ROUND, m_roundNumber = Some n\<rparr>],
        os_events := os_events ?s2 @ [MessageStart MODERATOR (str (CLIType_value (cfg_cliType (dc_moderator (o_config orch))))), MessageEnd],
        os_invocations := os_invocations ?s2 @ [(o_moderator orch, getModeratorEvaluationPrompt P (dc_topic (o_config orch)) n (os_messages ?s2))]\<rparr>)"
    (is "_ = (Inr ?m3, ?s3)") by blast
  have "executeRound w P orch n s = (Inr \<lparr>rr_roundNumber = n, rr_challengerMessage = ?m1, rr_defenderMessage = ?m2,
      rr_moderatorEvaluation = ?m3, rr_duration = w_round_elapsed w n\<rparr>, emit (RoundEnd n) ?s3)"
    unfolding executeRound_def Let_def 1 by (simp only: prod.case sum.case 2 3)
  then show ?thesis
    by (simp add: well_formed_round_def round_messages_def emit_def numeral_3_eq_3)
qed

lemma rounds_loop_success:
  assumes "all_succeed w"
  shows "\<exists>new s1. rounds_loop w P orch i k result s = (None, result\<lparr>dr_rounds := dr_rounds result @ new\<rparr>, s1)
     \<and> map rr_roundNumber new = [i..<i + k] \<and> (\<forall>r\<in>set new. well_formed_round orch r)
     \<and> os_messages s1 = os_messages s @ concat (map round_messages new)"
proof (induction k arbitrary: i result s)
  case 0
  have "rounds_loop w P orch i 0 result s = (None, result\<lparr>dr_rounds := dr_rounds result @ []\<rparr>, s)" by simp
  then show ?case by (metis add_0_right append_Nil2 concat.simps(1) empty_iff list.map(1) list.set(1) upt_eq_Nil_conv order_refl)
next
  case (Suc k)
  from executeRound_success [OF assms, of P orch i s] obtain r s1 where
    r: "executeRound w P orch i s = (Inr r, s1)" "rr_roundNumber r = i" "well_formed_round orch r"
       "os_messages s1 = os_messages s @ round_messages r" by blast
  from Suc [of "i + 1" "result\<lparr>dr_rounds := dr_rounds result @ [r]\<rparr>" s1] obtain new s2 where
    n: "rounds_loop w P orch (i + 1) k (result\<lparr>dr_rounds := dr_rounds result @ [r]\<rparr>) s1 =
         (None, result\<lparr>dr_rounds := dr_rounds result @ [r]\<rparr>\<lparr>dr_rounds := dr_rounds (result\<lparr>dr_rounds := dr_rounds result @ [r]\<rparr>) @ new\<rparr>, s2)"
       "map rr_roundNumber new = [i + 1..<i + 1 + k]" "\<forall>r\<in>set new. well_formed_round orch r"
       "os_messages s2 = os_messages s1 @ concat (map round_messages new)" by blast
  have "rounds_loop w P orch i (Suc k) result s = (None, result\<lparr>dr_rounds := dr_rounds result @ (r # new)\<rparr>, s2)"
    using r(1) n(1) by simp
  moreover have "map rr_roundNumber (r # new) = [i..<i + Suc k]"
    using r(2) n(2) by (simp add: upt_conv_Cons)
  moreover have "\<forall>x\<in>set (r # new). well_formed_round orch x" using r(3) n(3) by simp
  moreover have "os_messages s2 = os_messages s @ concat (map round_messages (r # new))"
    using r(4) n(4) by simp
  ultimately show ?case by blast
qed

lemma checkAgentsAvailable_eq:
  assumes "o_config orch = config"
     "agent_cliType (o_moderator orch) = cfg_cliType (dc_moderator config)"
     "agent_cliType (o_challenger orch) = cfg_cliType (dc_challenger config)"
     "agent_cliType (o_defender orch) = cfg_cliType (dc_defender config)"
  shows "checkAgentsAvailable w orch = (all_available w config, unavailable_lines w config)"
  using assms
  by (auto simp: checkAgentsAvailable_def isAvailable_def all_available_def unavailable_lines_def Let_def)

text \<open>
  Claim C6. For every round count \<open>N\<close>, if the three backends are available and every
  invocation succeeds, the debate ends with status Completed and no error, with exactly
  \<open>N\<close> round results numbered 1 to \<open>N\<close>, an opening message and a final verdict; the
  transcript is the opening message, then the three messages of each round (challenger,
  defender, moderator) in round order, then the final verdict, so it holds one message of
  phase Opening, \<open>3N\<close> of phase Round and one of phase Final, in this order. With
  \<open>N = 0\<close> the final verdict follows the opening directly.
\<close>

theorem debate_completes_with_N_rounds:
  "all_available w config \<and> all_succeed w \<longrightarrow>
   (\<exists>orch result s opening finalVerdict.
      new_DebateOrchestrator config = Inr orch \<and>
      DebateOrchestrator_run w P orch = (result, s) \<and>
      dr_status result = COMPLETED \<and> dr_error result = None \<and>
      length (dr_rounds result) = dc_rounds config \<and>
      map rr_roundNumber (dr_rounds result) = [1..<dc_rounds config + 1] \<and>
      (\<forall>r\<in>set (dr_rounds result). well_formed_round orch r) \<and>
      dr_opening result = Some opening \<and> m_phase opening = OPENING \<and> m_role opening = MODERATOR \<and>
      dr_finalVerdict result = Some finalVerdict \<and> m_phase finalVerdict = FINAL \<and>
      m_role finalVerdict = MODERATOR \<and>
      os_messages s = [opening] @ concat (map round_messages (dr_rounds result)) @ [finalVerdict] \<and>
      map m_phase (os_messages s) = [OPENING] @ replicate (3 * dc_rounds config) ROUND @ [FINAL])"
proof
  assume a: "all_available w config \<and> all_succeed w"
  then have ok: "all_succeed w" by simp
  from new_DebateOrchestrator_total [of config] obtain orch where
    o: "new_DebateOrchestrator config = Inr orch" "o_config orch = config"
       "agent_cliType (o_moderator orch) = cfg_cliType (dc_moderator config)"
       "agent_cliType (o_challenger orch) = cfg_cliType (dc_challenger config)"
       "agent_cliType (o_defender orch) = cfg_cliType (dc_defender config)" by blast
  have chk: "checkAgentsAvailable w orch = (True, unavailable_lines w config)"
    using checkAgentsAvailable_eq [OF o(2-5), of w] a by simp
  let ?r0 = "\<lparr>dr_topic = dc_topic (o_config orch), dr_status = PENDING,
                     dr_opening = None, dr_rounds = [], dr_finalVerdict = None,
                     dr_error = None\<rparr>"
  let ?sa = "emit (PhaseStart OPENING) (emit DebateStart fresh)"
  from speak_success [OF ok] obtain c0 where sp0: "speak w (o_moderator orch) MODERATOR (cfg_cliType (dc_moderator (o_config orch)))
             (getModeratorOpeningPrompt P (dc_topic (o_config orch)))
             opening_failed OPENING None ?sa =
     (Inr \<lparr>m_role = MODERATOR, m_cliType = cfg_cliType (dc_moderator (o_config orch)), m_content = c0, m_phase = OPENING, m_roundNumber = None\<rparr>,
      ?sa\<lparr>os_messages := os_messages ?sa @ [\<lparr>m_role = MODERATOR, m_cliType = cfg_cliType (dc_moderator (o_config orch)), m_content = c0, m_phase = OPENING, m_roundNumber = None\<rparr>],
        os_events := os_events ?sa @ [MessageStart MODERATOR (str (CLIType_value (cfg_cliType (dc_moderator (o_config orch))))), MessageEnd],
        os_invocations := os_invocations ?sa @ [(o_moderator orch, getModeratorOpeningPrompt P (dc_topic (o_config orch)))]\<rparr>)"
    (is "_ = (Inr ?m0, ?sb)") by blast
  let ?s1 = "emit (PhaseEnd OPENING) ?sb"
  have op: "executeOpening w P orch (emit DebateStart fresh) = (Inr ?m0, ?s1)"
    unfolding executeOpening_def sp0 by simp
  have m1: "os_messages ?s1 = [?m0]" by (simp add: emit_def fresh_def)
  let ?r1 = "?r0\<lparr>dr_status := IN_PROGRESS, dr_opening := Some ?m0\<rparr>"
  from rounds_loop_success [OF ok, of P orch 1 "dc_rounds config" ?r1 ?s1] obtain new s2 where
    lp: "rounds_loop w P orch 1 (dc_rounds config) ?r1 ?s1 = (None, ?r1\<lparr>dr_rounds := dr_rounds ?r1 @ new\<rparr>, s2)"
        "map rr_roundNumber new = [1..<1 + dc_rounds config]" "\<forall>r\<in>set new. well_formed_round orch r"
        "os_messages s2 = os_messages ?s1 @ concat (map round_messages new)" by blast
  let ?r2 = "?r1\<lparr>dr_rounds := dr_rounds ?r1 @ new\<rparr>"
  let ?sc = "emit (PhaseStart FINAL) s2"
  from speak_success [OF ok] obtain cf where spf: "speak w (o_moderator orch) MODERATOR (cfg_cliType (dc_moderator (o_config orch)))
             (getModeratorFinalVerdictPrompt P (dc_topic (o_config orch)) (os_messages ?sc))
             final_verdict_failed FINAL None ?sc =
     (Inr \<lparr>m_role = MODERATOR, m_cliType = cfg_cliType (dc_moderator (o_config orch)), m_content = cf, m_phase = FINAL, m_roundNumber = None\<rparr>,
      ?sc\<lparr>os_messages := os_messages ?sc @ [\<lparr>m_role = MODERATOR, m_cliType = cfg_cliType (dc_moderator (o_config orch)), m_content = cf, m_phase = FINAL, m_roundNumber = None\<rparr>],
        os_events := os_events ?sc @ [MessageStart MODERATOR (str (CLIType_value (cfg_cliType (dc_moderator (o_config orch))))), MessageEnd],
        os_invocations := os_invocations ?sc @ [(o_moderator orch, getModeratorFinalVerdictPrompt P (dc_topic (o_config orch)) (os_messages ?sc))]\<rparr>)"
    (is "_ = (Inr ?mf, ?sd)") by blast
  let ?s3 = "emit (PhaseEnd FINAL) ?sd"
  have fv: "executeFinalVerdict w P orch s2 = (Inr ?mf, ?s3)"
    unfolding executeFinalVerdict_def Let_def spf by simp
  let ?res = "?r2\<lparr>dr_finalVerdict := Some ?mf, dr_status := COMPLETED\<rparr>"
  let ?fin = "emit (DebateEnd COMPLETED) ?s3"
  have run: "DebateOrchestrator_run w P orch = (?res, ?fin)"
    unfolding DebateOrchestrator_run_def Let_def chk o(2) [symmetric]
    using op lp(1) fv o(2) by simp
  have len: "length new = dc_rounds config"
    using lp(2) by (metis add_diff_cancel_left' length_map length_upt)
  have msgs: "os_messages ?fin = [?m0] @ concat (map round_messages new) @ [?mf]"
    using lp(4) m1 by (simp add: emit_def)
  have ph: "map m_phase (concat (map round_messages xs)) = replicate (3 * length xs) ROUND"
    if "\<forall>r\<in>set xs. well_formed_round orch r" for xs
    using that
  proof (induction xs)
    case Nil then show ?case by simp
  next
    case (Cons x xs)
    then have "map m_phase (round_messages x) = replicate 3 ROUND"
      by (simp add: well_formed_round_def numeral_3_eq_3)
    with Cons show ?case by (simp add: replicate_add [symmetric] del: replicate_Suc)
  qed
  have phases: "map m_phase (os_messages ?fin) = [OPENING] @ replicate (3 * dc_rounds config) ROUND @ [FINAL]"
    unfolding msgs using ph [OF lp(3)] len by simp
  show "\<exists>orch result s opening finalVerdict.
      new_DebateOrchestrator config = Inr orch \<and>
      DebateOrchestrator_run w P orch = (result, s) \<and>
      dr_status result = COMPLETED \<and> dr_error result = None \<and>
      length (dr_rounds result) = dc_rounds config \<and>
      map rr_roundNumber (dr_rounds result) = [1..<dc_rounds config + 1] \<and>
      (\<forall>r\<in>set (dr_rounds result). well_formed_round orch r) \<and>
      dr_opening result = Some opening \<and> m_phase opening = OPENING \<and> m_role opening = MODERATOR \<and>
      dr_finalVerdict result = Some finalVerdict \<and> m_phase finalVerdict = FINAL \<and>
      m_role finalVerdict = MODERATOR \<and>
      os_messages s = [opening] @ concat (map round_messages (dr_rounds result)) @ [finalVerdict] \<and>
      map m_phase (os_messages s) = [OPENING] @ replicate (3 * dc_rounds config) ROUND @ [FINAL]"
    apply (rule exI [of _ orch], rule exI [of _ ?res], rule exI [of _ ?fin], rule exI [of _ ?m0], rule exI [of _ ?mf])
    using o(1) run len lp(2,3) msgs phases by simp
qed

text \<open>
  C6 on the first end-to-end scenario: topic X, one round, every backend available and
  succeeding.
\<close>

theorem debate_completes_with_N_rounds_witness:
  "all_available (world_all_ok (js ''ok'')) debate_X \<and> all_succeed (world_all_ok (js ''ok'')) \<and>
   (\<exists>orch result s.
      new_DebateOrchestrator debate_X = Inr orch \<and>
      DebateOrchestrator_run (world_all_ok (js ''ok'')) plain_prompts orch = (result, s) \<and>
      dr_status result = COMPLETED \<and> length (dr_rounds result) = 1 \<and>
      map m_phase (os_messages s) = [OPENING, ROUND, ROUND, ROUND, FINAL])"
proof -
  have h: "all_available (world_all_ok (js ''ok'')) debate_X \<and> all_succeed (world_all_ok (js ''ok''))"
    by (simp add: all_available_def all_succeed_def w_execute_def world_all_ok_def succeed_with_def)
  have r: "dc_rounds debate_X = 1" by (simp add: debate_X_def)
  from debate_completes_with_N_rounds [of "world_all_ok (js ''ok'')" debate_X plain_prompts] h
  show ?thesis unfolding r by (auto simp: numeral_3_eq_3)
qed

section \<open>Theorems about the code review\<close>

lemma new_review_src: "new_CodeReviewOrchestrator review_src = Inr review_orchestrator"
  by (simp add: review_orchestrator_def new_CodeReviewOrchestrator_def review_src_def createAgent_def
      default_fixers_def str_def js_def)

lemma no_issues_text: "parseIssuesFromOutput (js ''no issues'') = []"
  by (simp add: eval_defs)

lemma invoke_available: "invoke (w\<lparr>w_available := av\<rparr>) a p s = invoke w a p s"
  by (simp add: invoke_def)

lemma speak_available:
  "speak (w\<lparr>w_available := av\<rparr>) a role cli prompt failure phase rn s =
   speak w a role cli prompt failure phase rn s"
  by (simp add: speak_def invoke_available)

lemma start_fix_task_available:
  "start_fix_task (w\<lparr>w_available := av\<rparr>) P path k call s = start_fix_task w P path k call s"
  by (simp add: start_fix_task_def invoke_available split: prod.splits sum.splits)

lemma start_fix_tasks_available:
  "start_fix_tasks (w\<lparr>w_available := av\<rparr>) P path k calls s = start_fix_tasks w P path k calls s"
  by (induction calls arbitrary: k s) (simp_all add: start_fix_task_available)

lemma finish_fix_task_available:
  "finish_fix_task (w\<lparr>w_available := av\<rparr>) k started = finish_fix_task w k started"
  by (simp add: finish_fix_task_def split: prod.splits option.splits sum.splits)

lemma resume_fix_tasks_available:
  "resume_fix_tasks (w\<lparr>w_available := av\<rparr>) ks tasks s = resume_fix_tasks w ks tasks s"
  by (induction ks arbitrary: tasks s) (simp_all add: finish_fix_task_available)

lemma executeParallelFix_available:
  "executeParallelFix (w\<lparr>w_available := av\<rparr>) P orch issues s = executeParallelFix w P orch issues s"
  by (simp add: executeParallelFix_def start_fix_tasks_available resume_fix_tasks_available
      completion_order_def)

lemma executeBuildCheck_available:
  "executeBuildCheck (w\<lparr>w_available := av\<rparr>) orch s = executeBuildCheck w orch s"
  by (simp add: executeBuildCheck_def)

lemma executeChallengerAnalysis_available:
  "executeChallengerAnalysis (w\<lparr>w_available := av\<rparr>) P orch s = executeChallengerAnalysis w P orch s"
  unfolding executeChallengerAnalysis_def speak_available by (rule refl)

lemma executeDefenderResponse_available:
  "executeDefenderResponse (w\<lparr>w_available := av\<rparr>) P orch issues s =
   executeDefenderResponse w P orch issues s"
  unfolding executeDefenderResponse_def speak_available by (rule refl)

lemma executeModeratorVerdict_available:
  "executeModeratorVerdict (w\<lparr>w_available := av\<rparr>) P orch issues defense s =
   executeModeratorVerdict w P orch issues defense s"
  unfolding executeModeratorVerdict_def speak_available by (rule refl)

lemma review_phases_available:
  "review_phases (w\<lparr>w_available := av\<rparr>) P orch result s = review_phases w P orch result s"
  unfolding review_phases_def executeChallengerAnalysis_available executeDefenderResponse_available
    executeModeratorVerdict_available executeParallelFix_available by (rule refl)

lemma run_available:
  "CodeReviewOrchestrator_run (w\<lparr>w_available := av\<rparr>) P orch = CodeReviewOrchestrator_run w P orch"
  unfolding CodeReviewOrchestrator_run_def executeBuildCheck_available review_phases_available
  by (rule refl)

text \<open>
  Claim C2, as amended. In the debate orchestrator, if the backend of any of the three
  roles is not available, the run fails with the aggregated error that names each such
  role, and it does so before anything else happens: no message is created, no executor
  is invoked, and the only events are the error and the end of the debate (no phase
  starts). The code-review orchestrator makes no availability check: its run is the same
  whatever the backends report about their availability.
\<close>

theorem debate_unavailable_fails_preflight:
  "(\<not> all_available w config \<longrightarrow>
    (\<exists>orch result s.
       new_DebateOrchestrator config = Inr orch \<and>
       DebateOrchestrator_run w P orch = (result, s) \<and>
       dr_status result = FAILED \<and>
       dr_error result = Some (agents_unavailable @ join (js '', '') (unavailable_lines w config)) \<and>
       unavailable_lines w config \<noteq> [] \<and>
       dr_opening result = None \<and> dr_rounds result = [] \<and> dr_finalVerdict result = None \<and>
       os_messages s = [] \<and> os_invocations s = [] \<and>
       os_events s = [ErrorEvent (agents_unavailable @ join (js '', '') (unavailable_lines w config)),
                      DebateEnd FAILED])) \<and>
   CodeReviewOrchestrator_run (w\<lparr>w_available := available\<rparr>) P review =
     CodeReviewOrchestrator_run w P review"
proof (intro conjI impI)
  show "CodeReviewOrchestrator_run (w\<lparr>w_available := available\<rparr>) P review =
     CodeReviewOrchestrator_run w P review"
    by (rule run_available)
next
  assume a: "\<not> all_available w config"
  from new_DebateOrchestrator_total [of config] obtain orch where
    o: "new_DebateOrchestrator config = Inr orch" "o_config orch = config"
       "agent_cliType (o_moderator orch) = cfg_cliType (dc_moderator config)"
       "agent_cliType (o_challenger orch) = cfg_cliType (dc_challenger config)"
       "agent_cliType (o_defender orch) = cfg_cliType (dc_defender config)" by blast
  have chk: "checkAgentsAvailable w orch = (False, unavailable_lines w config)"
    using checkAgentsAvailable_eq [OF o(2-5), of w] a by simp
  have ne: "unavailable_lines w config \<noteq> []"
    using a by (auto simp: all_available_def unavailable_lines_def)
  show "\<exists>orch result s.
      new_DebateOrchestrator config = Inr orch \<and>
      DebateOrchestrator_run w P orch = (result, s) \<and>
      dr_status result = FAILED \<and>
      dr_error result = Some (agents_unavailable @ join (js '', '') (unavailable_lines w config)) \<and>
      unavailable_lines w config \<noteq> [] \<and>
      dr_opening result = None \<and> dr_rounds result = [] \<and> dr_finalVerdict result = None \<and>
      os_messages s = [] \<and> os_invocations s = [] \<and>
      os_events s = [ErrorEvent (agents_unavailable @ join (js '', '') (unavailable_lines w config)),
                     DebateEnd FAILED]"
    using o(1) ne
    by (simp add: DebateOrchestrator_run_def Let_def chk debate_failed_def emit_def fresh_def)
qed

text \<open>
  C2 on the second end-to-end scenario: the defender's backend is missing. And the
  code-review run in that world is the run in the world where nothing is missing but the
  invocations settle the same.
\<close>

theorem debate_unavailable_fails_preflight_witness:
  "\<not> all_available (world_without CODEX (js ''ok'')) debate_X \<and>
   (\<exists>orch result s.
      new_DebateOrchestrator debate_X = Inr orch \<and>
      DebateOrchestrator_run (world_without CODEX (js ''ok'')) plain_prompts orch = (result, s) \<and>
      dr_status result = FAILED \<and>
      dr_error result = Some (agents_unavailable @ defender_unavailable CODEX) \<and>
      os_messages s = [] \<and> os_invocations s = []) \<and>
   CodeReviewOrchestrator_run ((world_without CODEX (js ''ok''))\<lparr>w_available := w_available (world_all_ok (js ''ok''))\<rparr>)
       plain_prompts review_orchestrator =
     CodeReviewOrchestrator_run (world_without CODEX (js ''ok'')) plain_prompts review_orchestrator"
proof -
  have h: "\<not> all_available (world_without CODEX (js ''ok'')) debate_X"
    by (simp add: all_available_def world_without_def debate_X_def)
  have u: "unavailable_lines (world_without CODEX (js ''ok'')) debate_X = [defender_unavailable CODEX]"
    by (simp add: unavailable_lines_def world_without_def debate_X_def)
  from debate_unavailable_fails_preflight [of "world_without CODEX (js ''ok'')" debate_X plain_prompts
      "w_available (world_all_ok (js ''ok''))" review_orchestrator] h
  show ?thesis unfolding u by auto
qed

text \<open>
  C2 as first stated fails for the code-review orchestrator, whose \<open>run\<close> never asks
  \<open>isAvailable\<close>. With the moderator's backend missing, the run fails only in the
  verdict phase, with the error of that invocation, after two phases ran, three executors
  were invoked and two messages were created. With the defender's backend missing and an
  analysis that finds nothing, the run does not fail at all.
\<close>

theorem review_unavailable_counterexample:
  "\<not> w_available (world_without GEMINI payload_two_issues) (cfg_cliType (cr_moderator review_src)) \<and>
   new_CodeReviewOrchestrator review_src = Inr review_orchestrator \<and>
   rv_status (fst (CodeReviewOrchestrator_run (world_without GEMINI payload_two_issues) plain_prompts
       review_orchestrator)) = FAILED \<and>
   rv_error (fst (CodeReviewOrchestrator_run (world_without GEMINI payload_two_issues) plain_prompts
       review_orchestrator)) = Some (verdict_failed @ js ''command not found'') \<and>
   map m_phase (os_messages (snd (CodeReviewOrchestrator_run (world_without GEMINI payload_two_issues)
       plain_prompts review_orchestrator))) = [CODE_ANALYSIS, ISSUE_DEFENSE] \<and>
   length (os_invocations (snd (CodeReviewOrchestrator_run (world_without GEMINI payload_two_issues)
       plain_prompts review_orchestrator))) = 3 \<and>
   \<not> w_available (world_without CODEX (js ''no issues'')) (cfg_cliType (cr_defender review_src)) \<and>
   rv_status (fst (CodeReviewOrchestrator_run (world_without CODEX (js ''no issues'')) plain_prompts
       review_orchestrator)) = COMPLETED"
proof -
  have n: "parseIssuesFromOutput payload_two_issues \<noteq> []"
    by (simp add: two_issues_parsed)
  show ?thesis
    using n no_issues_text new_review_src
    by (simp add: review_orchestrator_def world_without_def plain_prompts_def review_src_def
      succeed_with_def fail_with_def ClaudeAgent_def CodexAgent_def GeminiAgent_def
      CodeReviewOrchestrator_run_def review_phases_def review_failed_def executeChallengerAnalysis_def
      executeDefenderResponse_def executeModeratorVerdict_def speak_def invoke_def emit_def
      createMessage_def fresh_def opt_text_def Let_def)
qed

lemma new_CodeReviewOrchestrator_config:
  "new_CodeReviewOrchestrator config = Inr orch \<Longrightarrow> c_config orch = config"
  by (auto simp: new_CodeReviewOrchestrator_def split: sum.splits if_splits)

text \<open>
  Claim C8. When the analysis succeeds and yields no issue, the run ends with status
  Completed and an empty issue list; there is no defense message, no verdict and no fix
  task, the challenger's invocation is the only one, its message the only one, and none
  of the phases Defense, Verdict and ParallelFix starts. This holds with or without a
  build check before the analysis.
\<close>

theorem review_no_issues_short_circuit:
  "new_CodeReviewOrchestrator config = Inr orch \<and>
   res_success (w_execute w 0 (c_challenger orch)
      (getCodeReviewChallengerPrompt P (cr_path config) (cr_focus config))) \<and>
   parseIssuesFromOutput (res_output (w_execute w 0 (c_challenger orch)
      (getCodeReviewChallengerPrompt P (cr_path config) (cr_focus config)))) = []
   \<longrightarrow>
   rv_status (fst (CodeReviewOrchestrator_run w P orch)) = COMPLETED \<and>
   rv_issues (fst (CodeReviewOrchestrator_run w P orch)) = [] \<and>
   rv_defenseResponses (fst (CodeReviewOrchestrator_run w P orch)) = None \<and>
   rv_verdict (fst (CodeReviewOrchestrator_run w P orch)) = None \<and>
   rv_fixTasks (fst (CodeReviewOrchestrator_run w P orch)) = None \<and>
   rv_error (fst (CodeReviewOrchestrator_run w P orch)) = None \<and>
   os_invocations (snd (CodeReviewOrchestrator_run w P orch)) =
     [(c_challenger orch, getCodeReviewChallengerPrompt P (cr_path config) (cr_focus config))] \<and>
   map m_phase (os_messages (snd (CodeReviewOrchestrator_run w P orch))) = [CODE_ANALYSIS] \<and>
   PhaseStart ISSUE_DEFENSE \<notin> set (os_events (snd (CodeReviewOrchestrator_run w P orch))) \<and>
   PhaseStart VERDICT_ASSIGNMENT \<notin> set (os_events (snd (CodeReviewOrchestrator_run w P orch))) \<and>
   PhaseStart PARALLEL_FIX \<notin> set (os_events (snd (CodeReviewOrchestrator_run w P orch)))"
proof
  let ?prompt = "getCodeReviewChallengerPrompt P (cr_path config) (cr_focus config)"
  assume a: "new_CodeReviewOrchestrator config = Inr orch \<and>
   res_success (w_execute w 0 (c_challenger orch) ?prompt) \<and>
   parseIssuesFromOutput (res_output (w_execute w 0 (c_challenger orch) ?prompt)) = []"
  then have c: "c_config orch = config" using new_CodeReviewOrchestrator_config by blast
  from a have st: "w_settle w 0 (c_challenger orch) ?prompt = Inr (w_execute w 0 (c_challenger orch) ?prompt)"
    using settle_of_success by blast
  have ph: "rv_status (fst (review_phases w P orch result s)) = COMPLETED \<and>
      rv_issues (fst (review_phases w P orch result s)) = [] \<and>
      rv_defenseResponses (fst (review_phases w P orch result s)) = rv_defenseResponses result \<and>
      rv_verdict (fst (review_phases w P orch result s)) = rv_verdict result \<and>
      rv_fixTasks (fst (review_phases w P orch result s)) = rv_fixTasks result \<and>
      rv_error (fst (review_phases w P orch result s)) = rv_error result \<and>
      os_invocations (snd (review_phases w P orch result s)) = [(c_challenger orch, ?prompt)] \<and>
      map m_phase (os_messages (snd (review_phases w P orch result s))) = [CODE_ANALYSIS] \<and>
      PhaseStart ISSUE_DEFENSE \<notin> set (os_events (snd (review_phases w P orch result s))) \<and>
      PhaseStart VERDICT_ASSIGNMENT \<notin> set (os_events (snd (review_phases w P orch result s))) \<and>
      PhaseStart PARALLEL_FIX \<notin> set (os_events (snd (review_phases w P orch result s)))"
    if "os_invocations s = []" "os_messages s = []"
       "PhaseStart ISSUE_DEFENSE \<notin> set (os_events s)"
       "PhaseStart VERDICT_ASSIGNMENT \<notin> set (os_events s)"
       "PhaseStart PARALLEL_FIX \<notin> set (os_events s)" for result s
    using a that c
    by (simp add: review_phases_def executeChallengerAnalysis_def speak_def invoke_def emit_def
        createMessage_def Let_def st)
  let ?r0 = "\<lparr>rv_path = cr_path (c_config orch), rv_status = IN_PROGRESS,
                     rv_buildCheck = None, rv_issues = [], rv_defenseResponses = None,
                     rv_verdict = None, rv_fixTasks = None, rv_error = None\<rparr>"
  have "\<exists>result s. CodeReviewOrchestrator_run w P orch = review_phases w P orch result s \<and>
      rv_defenseResponses result = None \<and> rv_verdict result = None \<and> rv_fixTasks result = None \<and>
      rv_error result = None \<and> os_invocations s = [] \<and> os_messages s = [] \<and>
      PhaseStart ISSUE_DEFENSE \<notin> set (os_events s) \<and>
      PhaseStart VERDICT_ASSIGNMENT \<notin> set (os_events s) \<and>
      PhaseStart PARALLEL_FIX \<notin> set (os_events s)"
  proof (cases "cr_buildCommand (c_config orch) = None \<or> cr_buildCommand (c_config orch) = Some []")
    case True
    then have "CodeReviewOrchestrator_run w P orch = review_phases w P orch ?r0 (emit DebateStart fresh)"
      by (auto simp add: CodeReviewOrchestrator_run_def Let_def)
    then show ?thesis
      by (intro exI [of _ ?r0] exI [of _ "emit DebateStart fresh"]) (simp add: emit_def fresh_def)
  next
    case False
    then obtain command where cmd: "cr_buildCommand (c_config orch) = Some command" "command \<noteq> []" by auto
    obtain bc s1 where b: "executeBuildCheck w orch (emit DebateStart fresh) = (bc, s1)"
      by (cases "executeBuildCheck w orch (emit DebateStart fresh)")
    let ?s2 = "if bc_success bc then s1 else emit (ErrorEvent build_failed) s1"
    from b have s2: "os_invocations ?s2 = []" "os_messages ?s2 = []"
      "PhaseStart ISSUE_DEFENSE \<notin> set (os_events ?s2)"
      "PhaseStart VERDICT_ASSIGNMENT \<notin> set (os_events ?s2)"
      "PhaseStart PARALLEL_FIX \<notin> set (os_events ?s2)"
      by (auto simp add: executeBuildCheck_def Let_def emit_def fresh_def split: build_outcome.splits)
    have "CodeReviewOrchestrator_run w P orch = review_phases w P orch (?r0\<lparr>rv_buildCheck := Some bc\<rparr>) ?s2"
      using cmd b by (simp add: CodeReviewOrchestrator_run_def Let_def)
    with s2 show ?thesis
      by (intro exI [of _ "?r0\<lparr>rv_buildCheck := Some bc\<rparr>"] exI [of _ ?s2]) simp
  qed
  then obtain result s where rs: "CodeReviewOrchestrator_run w P orch = review_phases w P orch result s"
      "rv_defenseResponses result = None" "rv_verdict result = None" "rv_fixTasks result = None"
      "rv_error result = None" "os_invocations s = []" "os_messages s = []"
      "PhaseStart ISSUE_DEFENSE \<notin> set (os_events s)"
      "PhaseStart VERDICT_ASSIGNMENT \<notin> set (os_events s)"
      "PhaseStart PARALLEL_FIX \<notin> set (os_events s)" by blast
  from ph [OF rs(6-10), of result] rs(2-5)
  show "rv_status (fst (CodeReviewOrchestrator_run w P orch)) = COMPLETED \<and>
   rv_issues (fst (CodeReviewOrchestrator_run w P orch)) = [] \<and>
   rv_defenseResponses (fst (CodeReviewOrchestrator_run w P orch)) = None \<and>
   rv_verdict (fst (CodeReviewOrchestrator_run w P orch)) = None \<and>
   rv_fixTasks (fst (CodeReviewOrchestrator_run w P orch)) = None \<and>
   rv_error (fst (CodeReviewOrchestrator_run w P orch)) = None \<and>
   os_invocations (snd (CodeReviewOrchestrator_run w P orch)) = [(c_challenger orch, ?prompt)] \<and>
   map m_phase (os_messages (snd (CodeReviewOrchestrator_run w P orch))) = [CODE_ANALYSIS] \<and>
   PhaseStart ISSUE_DEFENSE \<notin> set (os_events (snd (CodeReviewOrchestrator_run w P orch))) \<and>
   PhaseStart VERDICT_ASSIGNMENT \<notin> set (os_events (snd (CodeReviewOrchestrator_run w P orch))) \<and>
   PhaseStart PARALLEL_FIX \<notin> set (os_events (snd (CodeReviewOrchestrator_run w P orch)))"
    unfolding rs(1) by simp
qed

text \<open>C8 on the third end-to-end scenario.\<close>

theorem review_no_issues_short_circuit_witness:
  "new_CodeReviewOrchestrator review_src = Inr review_orchestrator \<and>
   parseIssuesFromOutput (js ''no issues'') = [] \<and>
   rv_status (fst (CodeReviewOrchestrator_run (world_all_ok (js ''no issues'')) plain_prompts
      review_orchestrator)) = COMPLETED \<and>
   rv_issues (fst (CodeReviewOrchestrator_run (world_all_ok (js ''no issues'')) plain_prompts
      review_orchestrator)) = [] \<and>
   rv_defenseResponses (fst (CodeReviewOrchestrator_run (world_all_ok (js ''no issues'')) plain_prompts
      review_orchestrator)) = None \<and>
   rv_verdict (fst (CodeReviewOrchestrator_run (world_all_ok (js ''no issues'')) plain_prompts
      review_orchestrator)) = None \<and>
   rv_fixTasks (fst (CodeReviewOrchestrator_run (world_all_ok (js ''no issues'')) plain_prompts
      review_orchestrator)) = None \<and>
   length (os_invocations (snd (CodeReviewOrchestrator_run (world_all_ok (js ''no issues''))
      plain_prompts review_orchestrator))) = 1"
proof -
  have h: "res_success (w_execute (world_all_ok (js ''no issues'')) 0 (c_challenger review_orchestrator)
      (getCodeReviewChallengerPrompt plain_prompts (cr_path review_src) (cr_focus review_src))) \<and>
    parseIssuesFromOutput (res_output (w_execute (world_all_ok (js ''no issues'')) 0 (c_challenger review_orchestrator)
      (getCodeReviewChallengerPrompt plain_prompts (cr_path review_src) (cr_focus review_src)))) = []"
    using no_issues_text by (simp add: w_execute_def world_all_ok_def succeed_with_def)
  from review_no_issues_short_circuit [of review_src review_orchestrator "world_all_ok (js ''no issues'')" plain_prompts]
    h new_review_src no_issues_text
  show ?thesis by simp
qed

lemma CLIType_value_lower: "toLowerCase (CLIType_value c) = CLIType_value c"
  by (cases c) (simp_all add: toLowerCase_def lower_unit_def js_def)






section \<open>Theorems about the fix phase\<close>

lemma invoked_before_0: "invoked_before P path calls 0 = 0"
  by (simp add: invoked_before_def)

lemma invoked_before_Suc:
  "invoked_before P path (call # calls) (Suc j) =
     (if isl (fix_prompt P path call) then 0 else 1) + invoked_before P path calls j"
  by (simp add: invoked_before_def)

lemma start_fix_task_spec:
  "\<exists>s1. start_fix_task w P path k call s =
     (started_task w k call (fix_outcome_of w P path (length (os_invocations s)) call), s1)
     \<and> os_messages s1 = os_messages s
     \<and> os_events s1 = os_events s @ [MessageStart DEFENDER (fst (snd call))]
     \<and> length (os_invocations s1) =
         length (os_invocations s) + (if isl (fix_prompt P path call) then 0 else 1)"
proof -
  obtain fixer cli issue where c: "call = (fixer, cli, issue)" by (cases call)
  show ?thesis
  proof (cases "getFixTaskPrompt P issue path")
    case (Inl e)
    then show ?thesis
      by (simp add: c start_fix_task_def fix_outcome_of_def fix_prompt_def emit_def)
  next
    case (Inr prompt)
    show ?thesis
    proof (cases "w_settle w (length (os_invocations s)) fixer prompt")
      case (Inl e)
      with Inr show ?thesis
        by (simp add: c start_fix_task_def fix_outcome_of_def fix_prompt_def emit_def invoke_def)
    next
      case (Inr result)
      with \<open>getFixTaskPrompt P issue path = Inr prompt\<close> show ?thesis
        by (simp add: c start_fix_task_def fix_outcome_of_def fix_prompt_def emit_def invoke_def)
    qed
  qed
qed

lemma start_fix_tasks_spec:
  "\<exists>s1. start_fix_tasks w P path k calls s =
     (map (\<lambda>(j, call). started_task w (k + j) call
             (fix_outcome_of w P path (length (os_invocations s) + invoked_before P path calls j) call))
        (enumerate 0 calls), s1)
     \<and> os_messages s1 = os_messages s
     \<and> os_events s1 = os_events s @ map (\<lambda>call. MessageStart DEFENDER (fst (snd call))) calls"
proof (induction calls arbitrary: k s)
  case Nil then show ?case by simp
next
  case (Cons call calls)
  from start_fix_task_spec [of w P path k call s] obtain s1 where
    st: "start_fix_task w P path k call s =
       (started_task w k call (fix_outcome_of w P path (length (os_invocations s)) call), s1)"
    and s1: "os_messages s1 = os_messages s"
      "os_events s1 = os_events s @ [MessageStart DEFENDER (fst (snd call))]"
      "length (os_invocations s1) =
         length (os_invocations s) + (if isl (fix_prompt P path call) then 0 else 1)" by blast
  from Cons [of "Suc k" s1] obtain s2 where r: "start_fix_tasks w P path (Suc k) calls s1 =
     (map (\<lambda>(j, call). started_task w (Suc k + j) call
             (fix_outcome_of w P path (length (os_invocations s1) + invoked_before P path calls j) call))
        (enumerate 0 calls), s2)"
     "os_messages s2 = os_messages s1"
     "os_events s2 = os_events s1 @ map (\<lambda>call. MessageStart DEFENDER (fst (snd call))) calls" by blast
  have sh: "map (\<lambda>(j, c). started_task w (k + j) c
             (fix_outcome_of w P path (length (os_invocations s) + invoked_before P path (call # calls) j) c))
        (enumerate (Suc 0) calls)
    = map (\<lambda>(j, c). started_task w (Suc k + j) c
             (fix_outcome_of w P path (length (os_invocations s1) + invoked_before P path calls j) c))
        (enumerate 0 calls)"
    by (simp add: enumerate_Suc_eq [of 0] split_def invoked_before_Suc s1(3) add.assoc)
  show ?case
    by (intro exI [of _ s2]) (simp add: st r s1 sh invoked_before_0)
qed

lemma map_enumerate_nth:
  "map (\<lambda>(j, x). F j x) (enumerate 0 xs) = map (\<lambda>j. F j (xs ! j)) [0..<length xs]"
  by (rule nth_equalityI) (simp_all add: nth_enumerate_eq)

lemma start_fix_tasks_from_0:
  "\<exists>s1. start_fix_tasks w P path 0 calls (emit e s) =
     (map (\<lambda>j. started_task w j (calls ! j) (planned_outcome w P path (length (os_invocations s)) calls j))
        [0..<length calls], s1)
     \<and> os_messages s1 = os_messages s
     \<and> os_events s1 = os_events s @ [e] @ map (\<lambda>call. MessageStart DEFENDER (fst (snd call))) calls"
  using start_fix_tasks_spec [of w P path 0 calls "emit e s"]
  by (simp add: emit_def map_enumerate_nth planned_outcome_def)

lemma finish_fix_task_snd: "snd (finish_fix_task w k t) = snd t"
  by (simp add: finish_fix_task_def split: prod.splits option.splits sum.splits)

lemma finish_events_eq:
  "finish_events t s = (if awaits_result t then emit MessageEnd s else s)"
  by (simp add: finish_events_def awaits_result_def split: option.splits sum.splits)

lemma resume_fix_tasks_spec:
  "distinct ks \<Longrightarrow> set ks \<subseteq> {0..<length tasks} \<Longrightarrow>
   fst (resume_fix_tasks w ks tasks s) =
     map (\<lambda>k. if k \<in> set ks then finish_fix_task w k (tasks ! k) else tasks ! k) [0..<length tasks]
   \<and> os_events (snd (resume_fix_tasks w ks tasks s)) =
       os_events s @ replicate (length (filter (\<lambda>k. awaits_result (tasks ! k)) ks)) MessageEnd
   \<and> os_messages (snd (resume_fix_tasks w ks tasks s)) = os_messages s
   \<and> os_invocations (snd (resume_fix_tasks w ks tasks s)) = os_invocations s"
proof (induction ks arbitrary: tasks s)
  case Nil
  then show ?case by (simp add: map_nth)
next
  case (Cons k ks)
  define tasks1 where "tasks1 = tasks[k := finish_fix_task w k (tasks ! k)]"
  define s1 where "s1 = finish_events (tasks ! k) s"
  from Cons.prems have d: "distinct ks" and nk: "k \<notin> set ks" and kl: "k < length tasks"
    and sub: "set ks \<subseteq> {0..<length tasks1}"
    by (simp_all add: tasks1_def)
  have len: "length tasks1 = length tasks" by (simp add: tasks1_def)
  note ih = Cons.IH [OF d sub, of s1]
  have step: "resume_fix_tasks w (k # ks) tasks s = resume_fix_tasks w ks tasks1 s1"
    by (simp add: tasks1_def s1_def)
  have same: "tasks1 ! j = tasks ! j" if "j \<noteq> k" for j
    using that by (simp add: tasks1_def)
  have at: "tasks1 ! k = finish_fix_task w k (tasks ! k)"
    using kl by (simp add: tasks1_def)
  have t: "map (\<lambda>j. if j \<in> set ks then finish_fix_task w j (tasks1 ! j) else tasks1 ! j) [0..<length tasks1]
      = map (\<lambda>j. if j \<in> set (k # ks) then finish_fix_task w j (tasks ! j) else tasks ! j) [0..<length tasks]"
  proof (rule nth_equalityI)
    show "length (map (\<lambda>j. if j \<in> set ks then finish_fix_task w j (tasks1 ! j) else tasks1 ! j) [0..<length tasks1])
      = length (map (\<lambda>j. if j \<in> set (k # ks) then finish_fix_task w j (tasks ! j) else tasks ! j) [0..<length tasks])"
      by (simp add: len)
  next
    fix i assume "i < length (map (\<lambda>j. if j \<in> set ks then finish_fix_task w j (tasks1 ! j) else tasks1 ! j) [0..<length tasks1])"
    then have i: "i < length tasks" by (simp add: len)
    show "map (\<lambda>j. if j \<in> set ks then finish_fix_task w j (tasks1 ! j) else tasks1 ! j) [0..<length tasks1] ! i
      = map (\<lambda>j. if j \<in> set (k # ks) then finish_fix_task w j (tasks ! j) else tasks ! j) [0..<length tasks] ! i"
    proof (cases "i = k")
      case True
      with i nk at show ?thesis by (simp add: len)
    next
      case False
      with i same [OF False] show ?thesis by (simp add: len)
    qed
  qed
  have f: "filter (\<lambda>j. awaits_result (tasks1 ! j)) ks = filter (\<lambda>j. awaits_result (tasks ! j)) ks"
  proof (rule filter_cong [OF refl])
    fix j assume "j \<in> set ks"
    with nk have "j \<noteq> k" by blast
    from same [OF this] show "awaits_result (tasks1 ! j) = awaits_result (tasks ! j)" by simp
  qed
  have e: "os_events s1 = os_events s @ (if awaits_result (tasks ! k) then [MessageEnd] else [])"
    and m: "os_messages s1 = os_messages s" and v: "os_invocations s1 = os_invocations s"
    by (simp_all add: s1_def finish_events_eq emit_def)
  from ih show ?case
    unfolding step t f e m v
    by (simp add: replicate_append_same)
qed

lemma length_filter_sort_key: "length (filter Q (sort_key f xs)) = length (filter Q xs)"
proof -
  have "mset (filter Q (sort_key f xs)) = mset (filter Q xs)" by simp
  then show ?thesis by (rule mset_eq_length)
qed

lemma completion_order_distinct: "distinct (completion_order w tasks)"
  by (simp add: completion_order_def pending_def)

lemma completion_order_mem:
  "k \<in> set (completion_order w tasks) \<longleftrightarrow> k < length tasks \<and> snd (tasks ! k) \<noteq> None"
  by (simp add: completion_order_def pending_def)

lemma completion_order_awaited:
  "length (filter (\<lambda>k. awaits_result (tasks ! k)) (completion_order w tasks)) =
   length (filter (\<lambda>k. awaits_result (tasks ! k)) [0..<length tasks])"
proof -
  have "filter (\<lambda>k. awaits_result (tasks ! k)) (pending tasks) =
      filter (\<lambda>k. awaits_result (tasks ! k)) [0..<length tasks]"
    unfolding pending_def filter_filter
    by (rule filter_cong [OF refl]) (auto simp: awaits_result_def split: option.splits)
  then show ?thesis
    by (simp add: completion_order_def length_filter_sort_key)
qed

lemma started_pending:
  "snd (started_task w k call oc) \<noteq> None \<longleftrightarrow> (\<forall>e. oc \<noteq> PromptThrew e)"
  by (cases oc) simp_all

lemma started_awaits: "awaits_result (started_task w k call oc) = is_resolved oc"
  by (cases oc) (simp_all add: awaits_result_def)

lemma finish_started:
  "fst (if snd (started_task w k call oc) \<noteq> None
        then finish_fix_task w k (started_task w k call oc)
        else started_task w k call oc) = final_task w k call oc"
  by (cases oc) (simp_all add: finish_fix_task_def)

lemma executeParallelFix_spec:
  assumes "cr_autoFix (c_config orch)" "issues \<noteq> []"
  shows "fst (executeParallelFix w P orch issues s) =
     map (\<lambda>k. final_task w k (planned_fixes (c_fixers orch) (issuesByCliType issues) ! k)
            (planned_outcome w P (cr_path (c_config orch)) (length (os_invocations s))
               (planned_fixes (c_fixers orch) (issuesByCliType issues)) k))
       [0..<length (planned_fixes (c_fixers orch) (issuesByCliType issues))]
   \<and> os_events (snd (executeParallelFix w P orch issues s)) =
       os_events s @ [PhaseStart PARALLEL_FIX] @
       map (\<lambda>call. MessageStart DEFENDER (fst (snd call))) (planned_fixes (c_fixers orch) (issuesByCliType issues)) @
       replicate (resolved_before w P (cr_path (c_config orch)) (length (os_invocations s))
                    (planned_fixes (c_fixers orch) (issuesByCliType issues))
                    (length (planned_fixes (c_fixers orch) (issuesByCliType issues)))) MessageEnd @
       [PhaseEnd PARALLEL_FIX]
   \<and> os_messages (snd (executeParallelFix w P orch issues s)) = os_messages s"
proof -
  define calls where "calls = planned_fixes (c_fixers orch) (issuesByCliType issues)"
  define path where "path = cr_path (c_config orch)"
  define out where "out = planned_outcome w P path (length (os_invocations s)) calls"
  define started where "started = map (\<lambda>j. started_task w j (calls ! j) (out j)) [0..<length calls]"
  define ks where "ks = completion_order w started"
  have "\<exists>s1. start_fix_tasks w P path 0 calls (emit (PhaseStart PARALLEL_FIX) s) = (started, s1)
     \<and> os_messages s1 = os_messages s
     \<and> os_events s1 = os_events s @ [PhaseStart PARALLEL_FIX] @
          map (\<lambda>call. MessageStart DEFENDER (fst (snd call))) calls"
    unfolding started_def out_def by (rule start_fix_tasks_from_0)
  then obtain s1 where
    st: "start_fix_tasks w P path 0 calls (emit (PhaseStart PARALLEL_FIX) s) = (started, s1)"
    and sm: "os_messages s1 = os_messages s"
    and se: "os_events s1 = os_events s @ [PhaseStart PARALLEL_FIX] @
        map (\<lambda>call. MessageStart DEFENDER (fst (snd call))) calls"
    by blast
  have len: "length started = length calls" by (simp add: started_def)
  have si: "started ! i = started_task w i (calls ! i) (out i)" if "i < length calls" for i
    using that by (simp add: started_def)
  have d: "distinct ks" unfolding ks_def by (rule completion_order_distinct)
  have mem: "i \<in> set ks \<longleftrightarrow> i < length started \<and> snd (started ! i) \<noteq> None" for i
    unfolding ks_def by (rule completion_order_mem)
  have sub: "set ks \<subseteq> {0..<length started}"
  proof
    fix i assume "i \<in> set ks"
    then have "i < length started" by (simp add: mem)
    then show "i \<in> {0..<length started}" by simp
  qed
  note rs = resume_fix_tasks_spec [OF d sub, of w s1]
  note rt = rs [THEN conjunct1]
  note re = rs [THEN conjunct2, THEN conjunct1]
  note rm = rs [THEN conjunct2, THEN conjunct2, THEN conjunct1]
  have fin: "map fst (map (\<lambda>k. if k \<in> set ks then finish_fix_task w k (started ! k) else started ! k)
         [0..<length started])
     = map (\<lambda>k. final_task w k (calls ! k) (out k)) [0..<length calls]"
  proof (rule nth_equalityI)
    show "length (map fst (map (\<lambda>k. if k \<in> set ks then finish_fix_task w k (started ! k) else started ! k)
         [0..<length started]))
      = length (map (\<lambda>k. final_task w k (calls ! k) (out k)) [0..<length calls])"
      by (simp add: len)
  next
    fix i assume "i < length (map fst (map (\<lambda>k. if k \<in> set ks then finish_fix_task w k (started ! k) else started ! k)
         [0..<length started]))"
    then have i: "i < length calls" by (simp add: len)
    have mi: "i \<in> set ks \<longleftrightarrow> snd (started ! i) \<noteq> None"
      using i by (simp add: mem len)
    have "fst (if i \<in> set ks then finish_fix_task w i (started ! i) else started ! i)
      = final_task w i (calls ! i) (out i)"
      unfolding mi si [OF i] by (rule finish_started)
    with i show "map fst (map (\<lambda>k. if k \<in> set ks then finish_fix_task w k (started ! k) else started ! k)
         [0..<length started]) ! i
      = map (\<lambda>k. final_task w k (calls ! k) (out k)) [0..<length calls] ! i"
      by (simp add: len)
  qed
  have cnt: "length (filter (\<lambda>k. awaits_result (started ! k)) ks) =
      resolved_before w P path (length (os_invocations s)) calls (length calls)"
  proof -
    have "length (filter (\<lambda>k. awaits_result (started ! k)) ks) =
        length (filter (\<lambda>k. awaits_result (started ! k)) [0..<length started])"
      unfolding ks_def by (rule completion_order_awaited)
    also have "filter (\<lambda>k. awaits_result (started ! k)) [0..<length started] =
        filter (\<lambda>k. is_resolved (out k)) [0..<length calls]"
      unfolding len
    proof (rule filter_cong [OF refl])
      fix k assume "k \<in> set [0..<length calls]"
      then have "k < length calls" by simp
      from si [OF this] show "awaits_result (started ! k) = is_resolved (out k)"
        by (simp add: started_awaits)
    qed
    finally show ?thesis by (simp add: resolved_before_def out_def)
  qed
  have run: "executeParallelFix w P orch issues s =
     (map fst (fst (resume_fix_tasks w ks started s1)),
      emit (PhaseEnd PARALLEL_FIX) (snd (resume_fix_tasks w ks started s1)))"
    using assms st by (simp add: executeParallelFix_def split_def calls_def path_def ks_def)
  have r1: "fst (executeParallelFix w P orch issues s)
      = map (\<lambda>k. final_task w k (calls ! k) (out k)) [0..<length calls]"
    unfolding run fst_conv rt by (rule fin)
  have r2: "os_events (snd (executeParallelFix w P orch issues s)) =
       os_events s @ [PhaseStart PARALLEL_FIX] @
       map (\<lambda>call. MessageStart DEFENDER (fst (snd call))) calls @
       replicate (resolved_before w P path (length (os_invocations s)) calls (length calls)) MessageEnd @
       [PhaseEnd PARALLEL_FIX]"
    unfolding run snd_conv by (simp add: emit_def re se cnt)
  have r3: "os_messages (snd (executeParallelFix w P orch issues s)) = os_messages s"
    unfolding run snd_conv by (simp add: emit_def rm sm)
  show ?thesis
    using r1 r2 r3 unfolding out_def calls_def path_def by (intro conjI)
qed

lemma group_add_mset:
  "mset (concat (map snd (group_add k i gs))) = add_mset i (mset (concat (map snd gs)))"
  by (induction gs) auto

lemma grouped_Nil: "grouped []"
  by (simp add: grouped_def)

lemma grouped_Cons: "grouped ((c, is) # gs) \<longleftrightarrow> is \<noteq> [] \<and> (\<forall>j\<in>set is. fix_key j = c) \<and> grouped gs"
  by (simp add: grouped_def)

lemma group_add_keys: "grouped gs \<Longrightarrow> grouped (group_add (fix_key i) i gs)"
proof (induction gs)
  case Nil then show ?case by (simp add: grouped_Cons)
next
  case (Cons g gs)
  obtain c "is" where g: "g = (c, is)" by (cases g)
  from Cons show ?case by (simp add: g grouped_Cons)
qed

lemma issuesByCliType_foldl:
  "grouped gs \<Longrightarrow>
   mset (concat (map snd (foldl (\<lambda>groups issue. group_add (fix_key issue) issue groups) gs issues)))
     = mset issues + mset (concat (map snd gs)) \<and>
   grouped (foldl (\<lambda>groups issue. group_add (fix_key issue) issue groups) gs issues)"
proof (induction issues arbitrary: gs)
  case Nil then show ?case by simp
next
  case (Cons i issues)
  from Cons.IH [OF group_add_keys [OF Cons.prems, of i]] show ?case
    by (simp add: group_add_mset)
qed

lemma issuesByCliType_spec:
  "mset (concat (map snd (issuesByCliType issues))) = mset issues \<and> grouped (issuesByCliType issues)"
  using issuesByCliType_foldl [OF grouped_Nil, of issues]
  by (simp add: issuesByCliType_def fix_key_def [abs_def])

lemma planned_fixes_issues:
  "map (\<lambda>call. snd (snd call)) (planned_fixes fixers groups) =
   concat (map snd (filter (\<lambda>(cli, is). map_of fixers cli \<noteq> None) groups))"
  by (induction groups) (auto simp: planned_fixes_def comp_def split: option.splits)

lemma planned_fixes_all:
  assumes "\<forall>issue\<in>set issues. map_of fixers (fix_key issue) \<noteq> None"
  shows "filter (\<lambda>(cli, is). map_of fixers cli \<noteq> None) (issuesByCliType issues) = issuesByCliType issues"
proof -
  have "map_of fixers c \<noteq> None" if "(c, is) \<in> set (issuesByCliType issues)" for c "is"
  proof -
    from that issuesByCliType_spec [of issues] have ne: "is \<noteq> []" and k: "\<forall>j\<in>set is. fix_key j = c"
      by (auto simp: grouped_def)
    then obtain j where j: "j \<in> set is" by (cases "is") auto
    with that have "j \<in> set (concat (map snd (issuesByCliType issues)))" by force
    then have "j \<in> set issues" using issuesByCliType_spec [of issues] by (metis set_mset_mset)
    with assms k j show ?thesis by auto
  qed
  then show ?thesis by (auto simp: filter_id_conv)
qed

text \<open>
  Claim C5, as amended. In the ParallelFix phase (auto-fix enabled, confirmed issues
  non-empty) one FixTask is created for each confirmed issue whose backend
  (\<open>assignedTo\<close>, else \<open>claude\<close>) has a fixer, in the order of the groups; issues of a
  backend without a fixer get none. When every backend has a fixer (as with the default
  fixers and backends among the three identities) the tasks correspond one to one to the
  confirmed issues. The phase returns only after every task has settled: every returned
  task is completed or failed, with a result and a duration, and \<open>phase:end\<close> follows
  the \<open>message:start\<close> of every task and the \<open>message:end\<close> of every task whose
  invocation was resolved. Each task ends as its own outcome decides, whatever the other
  tasks do and in whatever order the invocations settle: completed exactly if its own
  invocation was resolved with success, with the output of that invocation as the result
  whenever it was resolved, and failed with the message of the error as the result when
  its prompt could not be built or its invocation was rejected.
\<close>

theorem parallel_fix_isolated:
  "cr_autoFix (c_config orch) \<and> issues \<noteq> [] \<longrightarrow>
   (case executeParallelFix w P orch issues s of
      (tasks, s1) \<Rightarrow>
        map ft_issue tasks =
          concat (map snd (filter (\<lambda>(cli, is). map_of (c_fixers orch) cli \<noteq> None)
                             (issuesByCliType issues))) \<and>
        ((\<forall>issue\<in>set issues. map_of (c_fixers orch) (fix_key issue) \<noteq> None) \<longrightarrow>
           mset (map ft_issue tasks) = mset issues) \<and>
        length tasks = length (planned_fixes (c_fixers orch) (issuesByCliType issues)) \<and>
        (\<forall>k<length tasks.
           tasks ! k =
             final_task w k (planned_fixes (c_fixers orch) (issuesByCliType issues) ! k)
               (planned_outcome w P (cr_path (c_config orch)) (length (os_invocations s))
                  (planned_fixes (c_fixers orch) (issuesByCliType issues)) k)) \<and>
        (\<forall>t\<in>set tasks. (ft_status t = Task_completed \<or> ft_status t = Task_failed) \<and>
           ft_result t \<noteq> None \<and> ft_duration t \<noteq> None) \<and>
        os_events s1 =
          os_events s @ [PhaseStart PARALLEL_FIX] @
          map (\<lambda>call. MessageStart DEFENDER (fst (snd call)))
            (planned_fixes (c_fixers orch) (issuesByCliType issues)) @
          replicate (resolved_before w P (cr_path (c_config orch)) (length (os_invocations s))
                       (planned_fixes (c_fixers orch) (issuesByCliType issues)) (length tasks))
            MessageEnd @
          [PhaseEnd PARALLEL_FIX])"
proof
  assume a: "cr_autoFix (c_config orch) \<and> issues \<noteq> []"
  define calls where "calls = planned_fixes (c_fixers orch) (issuesByCliType issues)"
  define path where "path = cr_path (c_config orch)"
  define out where "out = planned_outcome w P path (length (os_invocations s)) calls"
  obtain tasks s1 where r: "executeParallelFix w P orch issues s = (tasks, s1)"
    by (cases "executeParallelFix w P orch issues s")
  from a have a1: "cr_autoFix (c_config orch)" and a2: "issues \<noteq> []" by simp_all
  note sp = executeParallelFix_spec [OF a1 a2, of w P s, folded calls_def path_def, folded out_def,
      unfolded r fst_conv snd_conv]
  note t = sp [THEN conjunct1]
  note e = sp [THEN conjunct2, THEN conjunct1]
  have len: "length tasks = length calls" by (simp add: t)
  have nth: "tasks ! k = final_task w k (calls ! k) (out k)" if "k < length tasks" for k
    using that by (simp add: t)
  have fields: "ft_issue (final_task w k call oc) = snd (snd call) \<and>
      (ft_status (final_task w k call oc) = Task_completed \<or> ft_status (final_task w k call oc) = Task_failed) \<and>
      ft_result (final_task w k call oc) \<noteq> None \<and> ft_duration (final_task w k call oc) \<noteq> None"
    for k call oc
    by (cases oc) simp_all
  have iss: "map ft_issue tasks = map (\<lambda>call. snd (snd call)) calls"
  proof (rule nth_equalityI)
    show "length (map ft_issue tasks) = length (map (\<lambda>call. snd (snd call)) calls)" by (simp add: len)
  next
    fix i assume "i < length (map ft_issue tasks)"
    then have i: "i < length tasks" by simp
    from i nth [OF i] len fields show "map ft_issue tasks ! i = map (\<lambda>call. snd (snd call)) calls ! i"
      by simp
  qed
  have i1: "map ft_issue tasks = concat (map snd (filter (\<lambda>(cli, is). map_of (c_fixers orch) cli \<noteq> None)
                             (issuesByCliType issues)))"
    unfolding iss calls_def by (rule planned_fixes_issues)
  have i2: "(\<forall>issue\<in>set issues. map_of (c_fixers orch) (fix_key issue) \<noteq> None) \<longrightarrow>
           mset (map ft_issue tasks) = mset issues"
    using i1 planned_fixes_all [of issues "c_fixers orch"] issuesByCliType_spec [of issues] by simp
  have fin: "\<forall>t\<in>set tasks. (ft_status t = Task_completed \<or> ft_status t = Task_failed) \<and>
           ft_result t \<noteq> None \<and> ft_duration t \<noteq> None"
  proof
    fix x assume "x \<in> set tasks"
    then obtain k where k: "k < length tasks" "x = tasks ! k" by (auto simp: in_set_conv_nth)
    from nth [OF k(1)] k(2) fields show "(ft_status x = Task_completed \<or> ft_status x = Task_failed) \<and>
           ft_result x \<noteq> None \<and> ft_duration x \<noteq> None"
      by simp
  qed
  have nth_all: "\<forall>k<length tasks. tasks ! k = final_task w k (calls ! k) (out k)"
    using nth by blast
  have e1: "os_events s1 =
          os_events s @ [PhaseStart PARALLEL_FIX] @
          map (\<lambda>call. MessageStart DEFENDER (fst (snd call))) calls @
          replicate (resolved_before w P path (length (os_invocations s)) calls (length tasks))
            MessageEnd @
          [PhaseEnd PARALLEL_FIX]"
    using e len by simp
  show "case executeParallelFix w P orch issues s of
      (tasks, s1) \<Rightarrow>
        map ft_issue tasks =
          concat (map snd (filter (\<lambda>(cli, is). map_of (c_fixers orch) cli \<noteq> None)
                             (issuesByCliType issues))) \<and>
        ((\<forall>issue\<in>set issues. map_of (c_fixers orch) (fix_key issue) \<noteq> None) \<longrightarrow>
           mset (map ft_issue tasks) = mset issues) \<and>
        length tasks = length (planned_fixes (c_fixers orch) (issuesByCliType issues)) \<and>
        (\<forall>k<length tasks.
           tasks ! k =
             final_task w k (planned_fixes (c_fixers orch) (issuesByCliType issues) ! k)
               (planned_outcome w P (cr_path (c_config orch)) (length (os_invocations s))
                  (planned_fixes (c_fixers orch) (issuesByCliType issues)) k)) \<and>
        (\<forall>t\<in>set tasks. (ft_status t = Task_completed \<or> ft_status t = Task_failed) \<and>
           ft_result t \<noteq> None \<and> ft_duration t \<noteq> None) \<and>
        os_events s1 =
          os_events s @ [PhaseStart PARALLEL_FIX] @
          map (\<lambda>call. MessageStart DEFENDER (fst (snd call)))
            (planned_fixes (c_fixers orch) (issuesByCliType issues)) @
          replicate (resolved_before w P (cr_path (c_config orch)) (length (os_invocations s))
                       (planned_fixes (c_fixers orch) (issuesByCliType issues)) (length tasks))
            MessageEnd @
          [PhaseEnd PARALLEL_FIX]"
    unfolding r prod.case
    using i1 i2 len nth_all fin e1
    unfolding out_def calls_def path_def
    by (intro conjI)
qed

lemmas fix_defs = executeParallelFix_def issuesByCliType_def planned_fixes_def start_fix_task_def
  finish_fix_task_def finish_events_def completion_order_def pending_def sort_key_def upt_conv_Cons
  invoke_def emit_def fresh_def
  fixing_orchestrator_def claude_only_orchestrator_def review_orchestrator_def review_fixing_def
  review_claude_fixes_def review_src_def assigned_issue_def world_without_def world_rejecting_def
  plain_prompts_def prompts_throwing_on_def generated_id_def nat_text.simps
  succeed_with_def fail_with_def ClaudeAgent_def CodexAgent_def GeminiAgent_def or_else_def
  str_def js_def default_timeout_def

text \<open>
  C5 on the fan-out scenario: three issues assigned to the three backends. First with the
  Codex fixer failing at launch: the other two tasks are completed, the Codex task is
  failed; its result is the output of the failed invocation, which here is empty. Then
  with the invocation of the Codex fixer rejected and the prompt of the third issue
  throwing: the first task is completed, the other two are failed with the messages of
  their errors, two executors were invoked, and \<open>message:end\<close> was emitted once.
\<close>

theorem parallel_fix_isolated_witness:
  "map ft_status (fst (executeParallelFix (world_without CODEX (js ''patched'')) plain_prompts
      fixing_orchestrator [assigned_issue 0 CLAUDE, assigned_issue 1 CODEX, assigned_issue 2 GEMINI] fresh))
     = [Task_completed, Task_failed, Task_completed] \<and>
   map ft_result (fst (executeParallelFix (world_without CODEX (js ''patched'')) plain_prompts
      fixing_orchestrator [assigned_issue 0 CLAUDE, assigned_issue 1 CODEX, assigned_issue 2 GEMINI] fresh))
     = [Some (js ''patched''), Some [], Some (js ''patched'')] \<and>
   map ft_duration (fst (executeParallelFix (world_without CODEX (js ''patched'')) plain_prompts
      fixing_orchestrator [assigned_issue 0 CLAUDE, assigned_issue 1 CODEX, assigned_issue 2 GEMINI] fresh))
     = [Some 0, Some 0, Some 0] \<and>
   map ft_status (fst (executeParallelFix (world_rejecting CODEX (js ''patched''))
      (prompts_throwing_on (js ''issue-3''))
      fixing_orchestrator [assigned_issue 0 CLAUDE, assigned_issue 1 CODEX, assigned_issue 2 GEMINI] fresh))
     = [Task_completed, Task_failed, Task_failed] \<and>
   map ft_result (fst (executeParallelFix (world_rejecting CODEX (js ''patched''))
      (prompts_throwing_on (js ''issue-3''))
      fixing_orchestrator [assigned_issue 0 CLAUDE, assigned_issue 1 CODEX, assigned_issue 2 GEMINI] fresh))
     = [Some (js ''patched''), Some (js ''spawn E2BIG''),
        Some (js ''Cannot convert object to primitive value'')] \<and>
   length (os_invocations (snd (executeParallelFix (world_rejecting CODEX (js ''patched''))
      (prompts_throwing_on (js ''issue-3''))
      fixing_orchestrator [assigned_issue 0 CLAUDE, assigned_issue 1 CODEX, assigned_issue 2 GEMINI] fresh)))
     = 2 \<and>
   os_events (snd (executeParallelFix (world_rejecting CODEX (js ''patched''))
      (prompts_throwing_on (js ''issue-3''))
      fixing_orchestrator [assigned_issue 0 CLAUDE, assigned_issue 1 CODEX, assigned_issue 2 GEMINI] fresh))
     = [PhaseStart PARALLEL_FIX, MessageStart DEFENDER (str (js ''claude'')),
        MessageStart DEFENDER (str (js ''codex'')), MessageStart DEFENDER (str (js ''gemini'')),
        MessageEnd, PhaseEnd PARALLEL_FIX]"
proof -
  have h: "cr_autoFix (c_config fixing_orchestrator) \<and>
      [assigned_issue 0 CLAUDE, assigned_issue 1 CODEX, assigned_issue 2 GEMINI] \<noteq> []"
    by (simp add: fixing_orchestrator_def review_fixing_def)
  from parallel_fix_isolated [of fixing_orchestrator
      "[assigned_issue 0 CLAUDE, assigned_issue 1 CODEX, assigned_issue 2 GEMINI]"
      "world_without CODEX (js ''patched'')" plain_prompts fresh]
    parallel_fix_isolated [of fixing_orchestrator
      "[assigned_issue 0 CLAUDE, assigned_issue 1 CODEX, assigned_issue 2 GEMINI]"
      "world_rejecting CODEX (js ''patched'')" "prompts_throwing_on (js ''issue-3'')" fresh] h
  show ?thesis by (simp add: fix_defs)
qed

text \<open>
  C5 as first stated fails: with \<open>fixers\<close> configured as Claude only, a confirmed issue
  assigned to Codex gets no FixTask (\<open>if (!fixer) continue\<close>).
\<close>

theorem parallel_fix_isolated_counterexample:
  "new_CodeReviewOrchestrator review_claude_fixes = Inr claude_only_orchestrator \<and>
   cr_autoFix (c_config claude_only_orchestrator) \<and>
   fst (executeParallelFix (world_all_ok (js ''patched'')) plain_prompts claude_only_orchestrator
          [assigned_issue 0 CODEX] fresh) = []"
  by (simp add: fix_defs new_CodeReviewOrchestrator_def createAgent_def world_all_ok_def)


end
